theory Spec2Isabelle
  imports Complex_Main "HOL-Library.Log_Nat"
begin

section \<open>JavaScript numbers\<close>

text \<open>
  A JavaScript number is an IEEE 754 binary64 value. A finite one is modelled by the real number
  it denotes, and every arithmetic operation of the source by the exact operation followed by
  rounding to the nearest binary64 value, ties going to the even significand. A decimal literal
  of the source such as \<^verbatim>\<open>0.3\<close> denotes the rounding of that decimal; whole numbers of moderate
  size and 0.5 are binary64 values and stand for themselves. Overflow to \<^verbatim>\<open>Infinity\<close> and
  \<^verbatim>\<open>NaN\<close> are outside the model: the quantities below are scores and percentages.

  \<open>round_even\<close> rounds a real to the nearest integer, a tie to the even one.
\<close>

definition round_even :: "real \<Rightarrow> int" where
  "round_even q =
     (let f = \<lfloor>q\<rfloor>; r = q - of_int f
      in if r < 1/2 then f else if r > 1/2 then f + 1 else if even f then f else f + 1)"

text \<open>
  The binary64 values are the multiples of \<open>2 ^ - 1074\<close> whose significand has at most 53 bits.
  For \<open>x \<ge> 0\<close>, scaled by \<open>2 ^ 1074\<close>, the number of bits in front of the binary point of
  \<open>x\<close> decides how many low bits are rounded away: none for the subnormal range, and
  all but 53 above it.
\<close>

definition EMIN :: nat where
  "EMIN = 1074"

definition round_pos :: "real \<Rightarrow> real" where
  "round_pos x =
     (let X = x * 2 ^ EMIN;
          n = nat \<lfloor>X\<rfloor>;
          sh = floorlog 2 n - 53;
          u = 2 ^ sh
      in of_int (round_even (X / u)) * u / 2 ^ EMIN)"

definition double_round :: "real \<Rightarrow> real" where
  "double_round x = (if x < 0 then - round_pos (- x) else round_pos x)"

text \<open>The operators \<^verbatim>\<open>+\<close>, \<^verbatim>\<open>*\<close> and \<^verbatim>\<open>/\<close> on numbers.\<close>

definition dadd :: "real \<Rightarrow> real \<Rightarrow> real" where
  "dadd x y = double_round (x + y)"

definition dmul :: "real \<Rightarrow> real \<Rightarrow> real" where
  "dmul x y = double_round (x * y)"

definition ddiv :: "real \<Rightarrow> real \<Rightarrow> real" where
  "ddiv x y = double_round (x / y)"

section \<open>Sensitivity scorer (services/sensitivity.service.js)\<close>

text \<open>
  The scorer computes on numbers: every sum, product and quotient below is the rounded one, and
  the thresholds and weights are the binary64 values of the decimal literals of the source.
  A frame analysis is the object pushed in \<^verbatim>\<open>processSensitivityCheck\<close>; only the two
  fields the scorer reads are kept.
\<close>

record frame_analysis =
  brightness :: real
  skinTone :: real

definition BRIGHTNESS_MIN :: real where
  "BRIGHTNESS_MIN = double_round 0.2"

definition BRIGHTNESS_MAX :: real where
  "BRIGHTNESS_MAX = double_round 0.9"

definition FLAG_THRESHOLD :: real where
  "FLAG_THRESHOLD = double_round 0.6"

text \<open>
  The body of the \<^verbatim>\<open>forEach\<close> callback of \<^verbatim>\<open>calculateSensitivityScore\<close>, up to the
  point where \<^verbatim>\<open>frameScore\<close> is complete: it starts at 0 and is incremented twice.
\<close>

definition frameScore :: "frame_analysis \<Rightarrow> real" where
  "frameScore analysis =
     (let s0 = 0;
          s1 = (if brightness analysis < BRIGHTNESS_MIN \<or> brightness analysis > BRIGHTNESS_MAX
                then dadd s0 (double_round 0.3) else s0);
          s2 = (if skinTone analysis > double_round 0.4
                then dadd s1 (dmul (skinTone analysis) (double_round 0.7)) else s1)
      in s2)"

text \<open>
  One iteration of the loop on the two mutable locals
  \<^verbatim>\<open>(totalScore, flaggedFrames)\<close>.
\<close>

definition scoreStep :: "frame_analysis \<Rightarrow> real \<times> nat \<Rightarrow> real \<times> nat" where
  "scoreStep analysis acc =
     (case acc of (totalScore, flaggedFrames) \<Rightarrow>
        (let fs = frameScore analysis;
             totalScore' = dadd totalScore fs;
             flaggedFrames' = (if fs > 0.5 then flaggedFrames + 1 else flaggedFrames)
         in (totalScore', flaggedFrames')))"

definition calculateSensitivityScore :: "frame_analysis list \<Rightarrow> real" where
  "calculateSensitivityScore frameAnalyses =
     (if length frameAnalyses = 0 then 0
      else
        (case fold scoreStep frameAnalyses (0, 0) of (totalScore, flaggedFrames) \<Rightarrow>
           (let averageScore = ddiv totalScore (real (length frameAnalyses));
                flaggedRatio = ddiv (real flaggedFrames) (real (length frameAnalyses));
                finalScore = dadd averageScore (dmul flaggedRatio (double_round 0.3))
            in min finalScore 1)))"

text \<open>
  The filter at the end of \<^verbatim>\<open>processSensitivityCheck\<close> recomputes the per-frame score
  with its own inline expression (two conditional terms added) and counts the frames above 0.5.
\<close>

definition inlineFrameScore :: "frame_analysis \<Rightarrow> real" where
  "inlineFrameScore a =
     dadd (if brightness a < BRIGHTNESS_MIN \<or> brightness a > BRIGHTNESS_MAX
           then double_round 0.3 else 0)
          (if skinTone a > double_round 0.4 then dmul (skinTone a) (double_round 0.7) else 0)"

definition countFlaggedFrames :: "frame_analysis list \<Rightarrow> nat" where
  "countFlaggedFrames frameAnalyses = length (filter (\<lambda>a. inlineFrameScore a > 0.5) frameAnalyses)"

datatype sensitivity_level = Low | Medium | High

text \<open>
  The object \<^verbatim>\<open>processSensitivityCheck\<close> resolves to. The \<^verbatim>\<open>details\<close> member has three
  shapes in the source (no frames, analysed frames, error); absent members are \<open>None\<close>.
\<close>

record sensitivity_result =
  flagged :: bool
  level :: sensitivity_level
  confidence :: real
  score :: real
  framesAnalyzed :: "nat option"
  flaggedFrames :: "nat option"
  averageBrightness :: "real option"
  averageSkinTone :: "real option"
  errorMessage :: "string option"

text \<open>
  What the external engine does during one scan: creating the temporary directory or extracting
  the frames may throw; otherwise every extracted frame yields an analysis
  (\<^verbatim>\<open>analyzeBrightness\<close> and \<^verbatim>\<open>analyzeSkinTone\<close> catch their own failures and always
  return a number), in frame order.
\<close>

datatype scan_env =
    MkdirThrows string
  | ExtractThrows string
  | Frames "frame_analysis list"

definition safeDefault :: sensitivity_result where
  "safeDefault =
     \<lparr>flagged = False, level = Low, confidence = 0, score = 0,
      framesAnalyzed = Some 0, flaggedFrames = Some 0,
      averageBrightness = None, averageSkinTone = None, errorMessage = None\<rparr>"

definition errorResult :: "string \<Rightarrow> sensitivity_result" where
  "errorResult msg =
     \<lparr>flagged = False, level = Low, confidence = 0, score = 0,
      framesAnalyzed = None, flaggedFrames = None,
      averageBrightness = None, averageSkinTone = None, errorMessage = Some msg\<rparr>"

text \<open>
  Progress reported for frame \<open>i\<close> of \<open>totalFrames\<close>:
  \<^verbatim>\<open>30 + Math.floor((i / totalFrames) * 50)\<close>. The quotient and the product are rounded;
  the final sum is one of two whole numbers and exact.
\<close>

definition frameProgress :: "nat \<Rightarrow> nat \<Rightarrow> real" where
  "frameProgress i totalFrames =
     30 + of_int \<lfloor>dmul (ddiv (real i) (real totalFrames)) 50\<rfloor>"

text \<open>
  \<^verbatim>\<open>processSensitivityCheck\<close>: the result object together with the list of percentages
  handed to the progress callback, in call order.
\<close>

definition processSensitivityCheck :: "scan_env \<Rightarrow> sensitivity_result \<times> real list" where
  "processSensitivityCheck env =
     (case env of
        MkdirThrows msg \<Rightarrow> (errorResult msg, [10])
      | ExtractThrows msg \<Rightarrow> (errorResult msg, [10, 20])
      | Frames frameAnalyses \<Rightarrow>
          (if length frameAnalyses = 0 then (safeDefault, [10, 20])
           else
             (let totalFrames = length frameAnalyses;
                  sc = calculateSensitivityScore frameAnalyses;
                  fl = (sc > FLAG_THRESHOLD);
                  lv = (if sc > double_round 0.8 then High
                        else if sc > 0.5 then Medium else Low);
                  ff = countFlaggedFrames frameAnalyses
              in (\<lparr>flagged = fl, level = lv, confidence = sc, score = sc,
                    framesAnalyzed = Some (length frameAnalyses), flaggedFrames = Some ff,
                    averageBrightness =
                      Some (ddiv (fold (\<lambda>a sum. dadd sum (brightness a)) frameAnalyses 0)
                              (real (length frameAnalyses))),
                    averageSkinTone =
                      Some (ddiv (fold (\<lambda>a sum. dadd sum (skinTone a)) frameAnalyses 0)
                              (real (length frameAnalyses))),
                    errorMessage = None\<rparr>,
                  [10, 20, 30] @ map (\<lambda>i. frameProgress i totalFrames) [0..<totalFrames]
                    @ [85, 100]))))"

subsection \<open>The scorer as the specification words it\<close>

text \<open>
  Per-frame score: 0.3 when the brightness lies outside the band \<open>[0.2, 0.9]\<close>, plus
  \<open>0.7 \<times> skinTone\<close> when \<open>skinTone > 0.4\<close>. Overall score: the mean per-frame score plus
  0.3 times the fraction of frames whose score exceeds 0.5, capped at 1. The numbers and
  operations are those of JavaScript; the mean sums the per-frame scores in frame order.
\<close>

definition spec_frame_score :: "frame_analysis \<Rightarrow> real" where
  "spec_frame_score a =
     dadd (if brightness a \<in> {double_round 0.2 .. double_round 0.9} then 0 else double_round 0.3)
          (if skinTone a > double_round 0.4 then dmul (double_round 0.7) (skinTone a) else 0)"

definition spec_mean_score :: "frame_analysis list \<Rightarrow> real" where
  "spec_mean_score fas = ddiv (foldl dadd 0 (map spec_frame_score fas)) (real (length fas))"

definition spec_flagged_fraction :: "frame_analysis list \<Rightarrow> real" where
  "spec_flagged_fraction fas =
     ddiv (real (length (filter (\<lambda>a. spec_frame_score a > 0.5) fas))) (real (length fas))"

definition spec_overall_score :: "frame_analysis list \<Rightarrow> real" where
  "spec_overall_score fas =
     min 1 (dadd (spec_mean_score fas) (dmul (double_round 0.3) (spec_flagged_fraction fas)))"

definition spec_level :: "real \<Rightarrow> sensitivity_level" where
  "spec_level s = (if s > double_round 0.8 then High else if s > 0.5 then Medium else Low)"

section \<open>Streaming responder (controllers/stream.controller.js)\<close>

subsection \<open>Decimal numerals\<close>

text \<open>
  Template literals print an integer in decimal, with a minus sign when negative;
  \<^verbatim>\<open>parseInt(s, 10)\<close> on a non-empty string of digits reads it back. File sizes and offsets
  are modelled as unbounded integers: a double represents every integer below \<open>2^53\<close> exactly,
  and rounding a longer digit string is monotone, so it cannot move an offset across a file size
  below that bound.
\<close>

definition is_digit :: "char \<Rightarrow> bool" where
  "is_digit c = (c \<in> set ''0123456789'')"

definition digit_val :: "char \<Rightarrow> nat" where
  "digit_val c = length (takeWhile (\<lambda>d. d \<noteq> c) ''0123456789'')"

definition digit_of :: "nat \<Rightarrow> char" where
  "digit_of d = ''0123456789'' ! d"

fun show_nat :: "nat \<Rightarrow> string" where
  "show_nat n = (if n < 10 then [digit_of n] else show_nat (n div 10) @ [digit_of (n mod 10)])"

declare show_nat.simps [simp del]

definition show_int :: "int \<Rightarrow> string" where
  "show_int i = (if i < 0 then CHR ''-'' # show_nat (nat (- i)) else show_nat (nat i))"

definition parseInt :: "string \<Rightarrow> int" where
  "parseInt ds = int (foldl (\<lambda>acc c. 10 * acc + digit_val c) 0 ds)"

subsection \<open>The range pattern\<close>

text \<open>
  \<^verbatim>\<open>rangeHeader.match(/bytes=(\d+)-(\d*)/)\<close>: the pattern is not anchored, so the match is
  the leftmost position where the text \<^verbatim>\<open>bytes=\<close> is followed by one or more digits and a
  hyphen. Both groups are greedy; as a digit is never a hyphen, giving digits back cannot turn a
  failed attempt into a match, so at each position the first group is the whole run of digits
  and the second the whole run of digits after the hyphen (possibly empty).
\<close>

definition match_here :: "string \<Rightarrow> (string \<times> string) option" where
  "match_here s =
     (if take 6 s = ''bytes='' then
        (let r = drop 6 s; g1 = takeWhile is_digit r; r' = dropWhile is_digit r
         in if g1 = [] then None
            else (case r' of
                    [] \<Rightarrow> None
                  | c # r'' \<Rightarrow> if c = CHR ''-'' then Some (g1, takeWhile is_digit r'') else None))
      else None)"

fun range_regex :: "string \<Rightarrow> (string \<times> string) option" where
  "range_regex [] = None"
| "range_regex (c # cs) =
     (case match_here (c # cs) of Some m \<Rightarrow> Some m | None \<Rightarrow> range_regex cs)"

record byte_range =
  range_start :: int
  range_end :: int
  chunkSize :: int

text \<open>
  \<^verbatim>\<open>parseRange\<close>. The header is absent (\<open>None\<close>) or a string; the empty string is falsy.
  The two \<^verbatim>\<open>isNaN\<close> tests of the source never fire: the first group is a non-empty digit
  string, the second is parsed only when non-empty, and the file size is a number.
\<close>

definition parseRange :: "string option \<Rightarrow> int \<Rightarrow> byte_range option" where
  "parseRange rangeHeader fileSize =
     (case rangeHeader of
        None \<Rightarrow> None
      | Some h \<Rightarrow>
          if h = [] then None
          else (case range_regex h of
                  None \<Rightarrow> None
                | Some (m1, m2) \<Rightarrow>
                    (let start = parseInt m1;
                         end0 = (if m2 \<noteq> [] then parseInt m2 else fileSize - 1)
                     in if start > end0 \<or> start < 0 \<or> end0 \<ge> fileSize then None
                        else (let end1 = min end0 (fileSize - 1);
                                  chunk = end1 - start + 1
                              in Some \<lparr>range_start = start, range_end = end1,
                                        chunkSize = chunk\<rparr>))))"

subsection \<open>Records, requests and responses\<close>

datatype video_status = Uploaded | Processing | Safe | Flagged | Ready | Failed

text \<open>The fields of the Video schema that the pipeline and the responder read or write.\<close>

record video =
  tenantId :: string
  originalFilePath :: string
  processedFilePath :: "string option"
  thumbnailPath :: "string option"
  mimeType :: "string option"
  status :: video_status
  processingProgress :: nat
  sensitivityLevel :: sensitivity_level
  duration :: "nat option"

text \<open>
  The record store (documents by \<^verbatim>\<open>_id\<close>) and the file system (contents by path).
\<close>

record world =
  videos :: "string \<rightharpoonup> video"
  files :: "string \<rightharpoonup> char list"

record jwt_payload =
  payload_userId :: string
  payload_role :: string
  payload_tenantId :: "string option"

text \<open>
  Library functions and configuration the services use: \<^verbatim>\<open>jwt.verify\<close> with the configured
  secret (\<open>None\<close> when it throws), \<^verbatim>\<open>path.extname(p).toLowerCase()\<close>, \<^verbatim>\<open>path.join\<close>,
  the configured \<^verbatim>\<open>UPLOAD_PATH\<close>, and whether the record store can cast a string to a
  document id (a query by an id that cannot be cast throws a CastError).
\<close>

record node_lib =
  jwt_verify :: "string \<Rightarrow> jwt_payload option"
  lower_extname :: "string \<Rightarrow> string"
  path_join :: "string list \<Rightarrow> string"
  UPLOAD_PATH :: string
  castObjectId :: "string \<Rightarrow> bool"

record request =
  param_videoId :: string
  query_token :: "string option"
  header_authorization :: "string option"
  header_range :: "string option"

datatype body = NoBody | Json string | Bytes "char list"

record response =
  status_code :: nat
  content_type :: "string option"
  accept_ranges :: "string option"
  content_length :: "int option"
  content_range :: "string option"
  body :: body

datatype app_error =
    UnauthorizedError string
  | NotFoundError string
  | ForbiddenError string
  | PlainError string
  | CastError string

text \<open>JavaScript truthiness of an optional string: \<^verbatim>\<open>undefined\<close>, \<^verbatim>\<open>null\<close> and \<^verbatim>\<open>''\<close> are falsy.\<close>

definition truthy :: "string option \<Rightarrow> bool" where
  "truthy s = (case s of None \<Rightarrow> False | Some t \<Rightarrow> t \<noteq> [])"

text \<open>\<^verbatim>\<open>a || b\<close> on optional strings.\<close>

definition or_else :: "string option \<Rightarrow> string option \<Rightarrow> string option" where
  "or_else a b = (if truthy a then a else b)"

text \<open>\<^verbatim>\<open>s.split(' ')\<close>: the pieces between single spaces, empty pieces included.\<close>

fun split_space :: "string \<Rightarrow> string list" where
  "split_space [] = [[]]"
| "split_space (c # cs) =
     (if c = CHR '' '' then [] # split_space cs
      else (case split_space cs of [] \<Rightarrow> [[c]] | p # ps \<Rightarrow> (c # p) # ps))"

definition nth_opt :: "'a list \<Rightarrow> nat \<Rightarrow> 'a option" where
  "nth_opt xs i = (if i < length xs then Some (xs ! i) else None)"

definition verifyToken :: "node_lib \<Rightarrow> request \<Rightarrow> jwt_payload option" where
  "verifyToken lib req =
     (let tokenFromQuery = query_token req;
          tokenFromHeader =
            (case header_authorization req of
               None \<Rightarrow> None
             | Some a \<Rightarrow> nth_opt (split_space a) 1);
          token = or_else tokenFromQuery tokenFromHeader
      in case token of
           None \<Rightarrow> None
         | Some t \<Rightarrow> if t = [] then None else jwt_verify lib t)"

text \<open>
  \<^verbatim>\<open>tenantQuery(tenantId, { _id: videoId })\<close> throws a plain Error on a falsy tenant id and
  otherwise builds the filter; \<^verbatim>\<open>Video.findOne\<close> returns the document with that id when its
  tenant is the filter's.
\<close>

definition tenantQuery :: "string option \<Rightarrow> string \<Rightarrow> app_error + (string \<times> string)" where
  "tenantQuery tid vid =
     (case tid of
        None \<Rightarrow> Inl (PlainError ''tenantId is required for tenant filtering'')
      | Some t \<Rightarrow>
          if t = [] then Inl (PlainError ''tenantId is required for tenant filtering'')
          else Inr (t, vid))"

definition findOne :: "world \<Rightarrow> string \<times> string \<Rightarrow> video option" where
  "findOne w q =
     (case videos w (snd q) of
        None \<Rightarrow> None
      | Some v \<Rightarrow> if tenantId v = fst q then Some v else None)"

definition existsSync :: "world \<Rightarrow> string \<Rightarrow> bool" where
  "existsSync w p = (files w p \<noteq> None)"

definition getMimeType :: "node_lib \<Rightarrow> string \<Rightarrow> string" where
  "getMimeType lib filePath =
     (let ext = lower_extname lib filePath
      in if ext = ''.mp4'' then ''video/mp4''
         else if ext = ''.mkv'' then ''video/x-matroska''
         else if ext = ''.avi'' then ''video/x-msvideo''
         else if ext = ''.webm'' then ''video/webm''
         else if ext = ''.mov'' then ''video/quicktime''
         else ''video/mp4'')"

text \<open>\<^verbatim>\<open>video.mimeType || getMimeType(filePath)\<close>.\<close>

definition pickMimeType :: "node_lib \<Rightarrow> video \<Rightarrow> string \<Rightarrow> string" where
  "pickMimeType lib v filePath =
     (case mimeType v of
        None \<Rightarrow> getMimeType lib filePath
      | Some m \<Rightarrow> if m = [] then getMimeType lib filePath else m)"

text \<open>\<^verbatim>\<open>video.processedFilePath || video.originalFilePath\<close>.\<close>

definition selectFile :: "video \<Rightarrow> string" where
  "selectFile v =
     (case or_else (processedFilePath v) (Some (originalFilePath v)) of
        None \<Rightarrow> []
      | Some p \<Rightarrow> p)"

text \<open>\<^verbatim>\<open>fs.createReadStream(p, { start, end })\<close> delivers the bytes at offsets start to end, both included.\<close>

definition readSpan :: "char list \<Rightarrow> int \<Rightarrow> int \<Rightarrow> char list" where
  "readSpan content s e = take (nat (e - s + 1)) (drop (nat s) content)"

text \<open>
  \<^verbatim>\<open>streamVideo\<close>: either the error it throws or the response it writes. The file is read
  as it was when its size was taken.
\<close>

definition streamVideo :: "node_lib \<Rightarrow> world \<Rightarrow> request \<Rightarrow> app_error + response" where
  "streamVideo lib w req =
     (case verifyToken lib req of
        None \<Rightarrow> Inl (UnauthorizedError ''Authentication required'')
      | Some decoded \<Rightarrow>
          (case tenantQuery (payload_tenantId decoded) (param_videoId req) of
             Inl e \<Rightarrow> Inl e
           | Inr q \<Rightarrow>
               if \<not> castObjectId lib (snd q) then Inl (CastError (snd q))
               else
               (case findOne w q of
                  None \<Rightarrow> Inl (NotFoundError ''Video'')
                | Some v \<Rightarrow>
                    if status v = Uploaded \<or> status v = Processing
                    then Inl (ForbiddenError ''Video is not ready for streaming'')
                    else
                      (let filePath = selectFile v
                       in case (if filePath = [] then None else files w filePath) of
                            None \<Rightarrow> Inl (NotFoundError ''Video file'')
                          | Some content \<Rightarrow>
                              (let fileSize = int (length content);
                                   mt = pickMimeType lib v filePath
                               in case parseRange (header_range req) fileSize of
                                    None \<Rightarrow>
                                      Inr \<lparr>status_code = 200,
                                           content_type = Some mt,
                                           accept_ranges = Some ''bytes'',
                                           content_length = Some fileSize,
                                           content_range =
                                             Some (''bytes 0-'' @ show_int (fileSize - 1)
                                                   @ ''/'' @ show_int fileSize),
                                           body = Bytes content\<rparr>
                                  | Some r \<Rightarrow>
                                      Inr \<lparr>status_code = 206,
                                           content_type = Some mt,
                                           accept_ranges = Some ''bytes'',
                                           content_length = Some (chunkSize r),
                                           content_range =
                                             Some (''bytes '' @ show_int (range_start r)
                                                   @ ''-'' @ show_int (range_end r)
                                                   @ ''/'' @ show_int fileSize),
                                           body = Bytes (readSpan content (range_start r)
                                                           (range_end r))\<rparr>)))))"

text \<open>
  The central error handler, reached through \<^verbatim>\<open>asyncHandler\<close>: the status code of the error
  class (500 for a plain Error, 404 for a CastError) and a JSON body carrying the message.
\<close>

definition errorHandler :: "app_error \<Rightarrow> response" where
  "errorHandler err =
     (case err of
        UnauthorizedError m \<Rightarrow>
          \<lparr>status_code = 401, content_type = None, accept_ranges = None,
           content_length = None, content_range = None, body = Json m\<rparr>
      | NotFoundError resource \<Rightarrow>
          \<lparr>status_code = 404, content_type = None, accept_ranges = None,
           content_length = None, content_range = None, body = Json (resource @ '' not found'')\<rparr>
      | ForbiddenError m \<Rightarrow>
          \<lparr>status_code = 403, content_type = None, accept_ranges = None,
           content_length = None, content_range = None, body = Json m\<rparr>
      | PlainError m \<Rightarrow>
          \<lparr>status_code = 500, content_type = None, accept_ranges = None,
           content_length = None, content_range = None, body = Json m\<rparr>
      | CastError v \<Rightarrow>
          \<lparr>status_code = 404, content_type = None, accept_ranges = None,
           content_length = None, content_range = None,
           body = Json (''Resource not found with id of '' @ v)\<rparr>)"

text \<open>
  \<^verbatim>\<open>streamVideo\<close> as a route handler: the response it writes, or the error handler's answer
  to what it throws.
\<close>

definition serveGET :: "node_lib \<Rightarrow> world \<Rightarrow> request \<Rightarrow> response" where
  "serveGET lib w req = (case streamVideo lib w req of Inl e \<Rightarrow> errorHandler e | Inr r \<Rightarrow> r)"

definition jsonResponse :: "nat \<Rightarrow> string \<Rightarrow> response" where
  "jsonResponse code msg =
     \<lparr>status_code = code, content_type = None, accept_ranges = None,
      content_length = None, content_range = None, body = Json msg\<rparr>"

text \<open>
  \<^verbatim>\<open>getStreamInfo\<close>, the handler registered with \<^verbatim>\<open>router.head\<close>. It answers by itself;
  whatever is thrown inside it (the Error of \<^verbatim>\<open>tenantQuery\<close>, the CastError of the lookup) is
  caught by its own \<^verbatim>\<open>catch\<close> and answered with 500.
\<close>

definition getStreamInfo :: "node_lib \<Rightarrow> world \<Rightarrow> request \<Rightarrow> response" where
  "getStreamInfo lib w req =
     (case verifyToken lib req of
        None \<Rightarrow> jsonResponse 401 ''Authentication required''
      | Some decoded \<Rightarrow>
          (case tenantQuery (payload_tenantId decoded) (param_videoId req) of
             Inl e \<Rightarrow> jsonResponse 500 ''Server error''
           | Inr q \<Rightarrow>
               if \<not> castObjectId lib (snd q) then jsonResponse 500 ''Server error''
               else
               (case findOne w q of
                  None \<Rightarrow> jsonResponse 404 ''Video not found or access denied''
                | Some v \<Rightarrow>
                    (let filePath = selectFile v
                     in case (if filePath = [] then None else files w filePath) of
                          None \<Rightarrow> jsonResponse 404 ''Video file not found''
                        | Some content \<Rightarrow>
                            (let fileSize = int (length content);
                                 mt = pickMimeType lib v filePath
                             in \<lparr>status_code = 200,
                                 content_type = Some mt,
                                 accept_ranges = Some ''bytes'',
                                 content_length = Some fileSize,
                                 content_range = None,
                                 body = NoBody\<rparr>)))))"

subsection \<open>The streaming routes (routes/video.routes.js)\<close>

text \<open>
  The router registers \<^verbatim>\<open>router.get('/stream/:videoId', streamVideo)\<close> and then
  \<^verbatim>\<open>router.head('/stream/:videoId', getStreamInfo)\<close>. The framework tries routes in the
  order of registration, and a route that has no HEAD handler of its own answers a HEAD request
  with its GET handler. Both handlers end the response. The body of a response to a HEAD
  request is not sent.
\<close>

datatype http_method = GET | HEAD

definition streamRoutes :: "(http_method \<times> (node_lib \<Rightarrow> world \<Rightarrow> request \<Rightarrow> response)) list" where
  "streamRoutes = [(GET, serveGET), (HEAD, getStreamInfo)]"

definition handles_method :: "http_method \<Rightarrow> http_method \<Rightarrow> bool" where
  "handles_method route_method request_method =
     (route_method = request_method \<or> (request_method = HEAD \<and> route_method = GET))"

definition sendFor :: "http_method \<Rightarrow> response \<Rightarrow> response" where
  "sendFor m r = (if m = HEAD then r\<lparr>body := NoBody\<rparr> else r)"

definition routeStream :: "node_lib \<Rightarrow> world \<Rightarrow> http_method \<Rightarrow> request \<Rightarrow> response" where
  "routeStream lib w m req =
     (case find (\<lambda>r. handles_method (fst r) m) streamRoutes of
        None \<Rightarrow> jsonResponse 404 ''Route not found''
      | Some r \<Rightarrow> sendFor m (snd r lib w req))"

subsection \<open>Vocabulary for the claims about the responder\<close>

text \<open>
  The first steps of both handlers are the same: verify the token, build the tenant filter,
  look the record up. \<open>resolveRecord\<close> is that prefix as a function, \<open>None\<close> when any of the
  steps fails.
\<close>

definition resolveRecord :: "node_lib \<Rightarrow> world \<Rightarrow> request \<Rightarrow> video option" where
  "resolveRecord lib w req =
     (case verifyToken lib req of
        None \<Rightarrow> None
      | Some decoded \<Rightarrow>
          (case tenantQuery (payload_tenantId decoded) (param_videoId req) of
             Inl e \<Rightarrow> None
           | Inr q \<Rightarrow> if castObjectId lib (snd q) then findOne w q else None))"

text \<open>
  A range request of the form \<^verbatim>\<open>bytes=<start>-<end>\<close> with the end optional, as a client
  writes it.
\<close>

definition range_header :: "nat \<Rightarrow> nat option \<Rightarrow> string" where
  "range_header s e =
     ''bytes='' @ show_nat s @ ''-'' @ (case e of None \<Rightarrow> [] | Some n \<Rightarrow> show_nat n)"

text \<open>
  The specification's exact form: the whole header is \<^verbatim>\<open>bytes=\<close>, one or more digits, a
  hyphen, and digits or nothing.
\<close>

definition exact_form :: "string \<Rightarrow> bool" where
  "exact_form h =
     (take 6 h = ''bytes='' \<and>
      (let r = drop 6 h; ds = takeWhile is_digit r; t = dropWhile is_digit r
       in ds \<noteq> [] \<and> t \<noteq> [] \<and> hd t = CHR ''-'' \<and> list_all is_digit (tl t)))"

text \<open>
  What the responder looks for instead, said without the matcher: an occurrence of the pattern
  in a header is a way of cutting the header into a prefix, the text \<^verbatim>\<open>bytes=\<close>, a
  non-empty run of digits, a hyphen and the rest. A header has no range pattern when it cannot
  be cut so. The leftmost range of a header is read at the occurrence with the shortest prefix:
  its start digits, and the longest run of digits after its hyphen.
\<close>

definition pattern_at :: "string \<Rightarrow> string \<Rightarrow> string \<Rightarrow> string \<Rightarrow> bool" where
  "pattern_at h pre ds rest =
     (h = pre @ ''bytes='' @ ds @ CHR ''-'' # rest \<and> ds \<noteq> [] \<and> list_all is_digit ds)"

definition no_range_pattern :: "string \<Rightarrow> bool" where
  "no_range_pattern h = (\<not> (\<exists>pre ds rest. pattern_at h pre ds rest))"

definition leftmost_range :: "string \<Rightarrow> string \<Rightarrow> string \<Rightarrow> bool" where
  "leftmost_range h ds de =
     (\<exists>pre rest. pattern_at h pre ds (de @ rest)
        \<and> list_all is_digit de
        \<and> (rest = [] \<or> \<not> is_digit (hd rest))
        \<and> (\<forall>pre' ds' rest'. pattern_at h pre' ds' rest' \<longrightarrow> length pre \<le> length pre'))"

text \<open>
  The invalid ranges of the amended claim: the header is absent, or has no range pattern, or
  its leftmost range has \<open>start > end\<close>, \<open>start < 0\<close>, \<open>end \<ge> fileSize\<close> or
  \<open>start \<ge> fileSize\<close>, the end being the last byte when no end digits are given.
\<close>

definition spec_range_invalid :: "string option \<Rightarrow> int \<Rightarrow> bool" where
  "spec_range_invalid hdr fileSize =
     (case hdr of
        None \<Rightarrow> True
      | Some h \<Rightarrow>
          no_range_pattern h
          \<or> (\<exists>ds de. leftmost_range h ds de
                \<and> (let start = parseInt ds;
                        en = (if de = [] then fileSize - 1 else parseInt de)
                    in start > en \<or> start < 0 \<or> en \<ge> fileSize \<or> start \<ge> fileSize)))"

text \<open>
  A fixture in the manner of \<^verbatim>\<open>__tests__/video.stream.test.js\<close>: one tenant, one token
  that verifies, one record over a ten-byte file, and a store that can cast every id.
\<close>

definition fixture_lib :: node_lib where
  "fixture_lib =
     \<lparr>jwt_verify = (\<lambda>t. if t = ''good''
                         then Some \<lparr>payload_userId = ''u1'', payload_role = ''viewer'',
                                    payload_tenantId = Some ''tenant-stream''\<rparr>
                         else None),
      lower_extname = (\<lambda>p. ''.mp4''),
      path_join = (\<lambda>ps. foldr (\<lambda>a b. if b = [] then a else a @ ''/'' @ b) ps []),
      UPLOAD_PATH = ''./uploads'',
      castObjectId = (\<lambda>i. True)\<rparr>"

definition fixture_video :: "video_status \<Rightarrow> string option \<Rightarrow> video" where
  "fixture_video st processed =
     \<lparr>tenantId = ''tenant-stream'', originalFilePath = ''stream.mp4'',
      processedFilePath = processed, thumbnailPath = None, mimeType = Some ''video/mp4'',
      status = st, processingProgress = 0, sensitivityLevel = Low, duration = None\<rparr>"

definition fixture_world :: "video_status \<Rightarrow> string option \<Rightarrow> world" where
  "fixture_world st processed =
     \<lparr>videos = [''v1'' \<mapsto> fixture_video st processed],
      files = [''stream.mp4'' \<mapsto> ''0123456789'']\<rparr>"

definition fixture_request :: "string option \<Rightarrow> string option \<Rightarrow> request" where
  "fixture_request tok rng =
     \<lparr>param_videoId = ''v1'', query_token = tok, header_authorization = None,
      header_range = rng\<rparr>"

section \<open>Transcode pipeline (services/videoProcessing.service.js)\<close>

text \<open>
  What the external engine and the file system do during one run. For each stage that can
  reject: the message of the error (\<open>None\<close> when the stage succeeds) and what the stage leaves at
  its output path (\<open>None\<close> when it writes nothing; a failing stage may leave a partial file).
  \<open>transcode_progress\<close> lists the \<^verbatim>\<open>percent\<close> values of the encoder's progress events
  in order. Saving a document and unlinking an existing file are taken to succeed.
\<close>

record engine =
  mkdir_error :: "string option"
  transcode_progress :: "real list"
  transcode_error :: "string option"
  transcode_output :: "char list option"
  thumbnail_error :: "string option"
  thumbnail_output :: "char list option"
  metadata_result :: "string + nat"
  scan :: scan_env

text \<open>\<^verbatim>\<open>getFileExtension\<close>, \<^verbatim>\<open>getProcessedFilePath\<close> and \<^verbatim>\<open>getThumbnailPath\<close> of
  utils/fileStorage.utils.js.\<close>

definition getFileExtension :: "node_lib \<Rightarrow> string \<Rightarrow> string" where
  "getFileExtension lib filename = drop 1 (lower_extname lib filename)"

definition getProcessedFilePath :: "node_lib \<Rightarrow> string \<Rightarrow> string \<Rightarrow> string \<Rightarrow> string" where
  "getProcessedFilePath lib tid vid extension =
     path_join lib [UPLOAD_PATH lib, tid, vid @ ''_processed.'' @ extension]"

definition getThumbnailPath :: "node_lib \<Rightarrow> string \<Rightarrow> string \<Rightarrow> string \<Rightarrow> string" where
  "getThumbnailPath lib tid vid extension =
     path_join lib [UPLOAD_PATH lib, tid, vid @ ''_thumbnail.'' @ extension]"

text \<open>
  \<^verbatim>\<open>deleteFile\<close>: nothing happens for a falsy path or a path with no file; otherwise the file
  is unlinked.
\<close>

definition deleteFile :: "string option \<Rightarrow> world \<Rightarrow> world" where
  "deleteFile filePath w =
     (case filePath of
        None \<Rightarrow> w
      | Some p \<Rightarrow>
          if p = [] \<or> \<not> existsSync w p then w
          else w\<lparr>files := (files w)(p := None)\<rparr>)"

text \<open>A stage writing its output file, when it writes one.\<close>

definition writeOutput :: "string \<Rightarrow> char list option \<Rightarrow> world \<Rightarrow> world" where
  "writeOutput p out w =
     (case out of None \<Rightarrow> w | Some bytes \<Rightarrow> w\<lparr>files := (files w)(p \<mapsto> bytes)\<rparr>)"

text \<open>\<^verbatim>\<open>video.save()\<close> on the document loaded by id.\<close>

definition saveVideo :: "string \<Rightarrow> video \<Rightarrow> world \<Rightarrow> world" where
  "saveVideo vid v w = w\<lparr>videos := (videos w)(vid \<mapsto> v)\<rparr>"

text \<open>
  The three progress adapters handed to the stages:
  \<^verbatim>\<open>10 + Math.floor(progress * 0.3)\<close>, \<^verbatim>\<open>40 + Math.floor(progress * 0.2)\<close> and
  \<^verbatim>\<open>70 + Math.floor(progress * 0.2)\<close>. The product is the rounded one; the sum adds two
  whole numbers and is exact.
\<close>

definition transcodeOverall :: "real \<Rightarrow> int" where
  "transcodeOverall progress = 10 + \<lfloor>dmul progress (double_round 0.3)\<rfloor>"

definition thumbnailOverall :: "real \<Rightarrow> int" where
  "thumbnailOverall progress = 40 + \<lfloor>dmul progress (double_round 0.2)\<rfloor>"

definition scanOverall :: "real \<Rightarrow> int" where
  "scanOverall progress = 70 + \<lfloor>dmul progress (double_round 0.2)\<rfloor>"

text \<open>
  The encoder's progress handler forwards an event only when its \<^verbatim>\<open>percent\<close> is truthy:
  a zero is dropped.
\<close>

definition transcodeEvents :: "engine \<Rightarrow> int list" where
  "transcodeEvents eng = map transcodeOverall (filter (\<lambda>p. p \<noteq> 0) (transcode_progress eng))"

text \<open>
  The outcome of one call of \<^verbatim>\<open>processVideo\<close>: the message of the error it rejects with
  (\<open>None\<close> when it resolves), the sensitivity result when the scan ran, the record store and
  file system afterwards, the percentages passed to the progress callback in call order, and
  the id for which the delayed promotion was scheduled, if it was.
\<close>

record run =
  run_error :: "string option"
  run_sensitivity :: "sensitivity_result option"
  run_world :: world
  run_progress :: "int list"
  run_promotion :: "string option"

text \<open>
  The \<^verbatim>\<open>catch\<close> block of \<^verbatim>\<open>processVideo\<close>: reload the record and mark it failed; reload it
  again and delete the files its \<^verbatim>\<open>processedFilePath\<close> and \<^verbatim>\<open>thumbnailPath\<close> name; rethrow.
\<close>

definition failRun :: "string \<Rightarrow> string \<Rightarrow> world \<Rightarrow> int list \<Rightarrow> run" where
  "failRun vid msg w reported =
     (let w1 = (case videos w vid of
                  None \<Rightarrow> w
                | Some v \<Rightarrow> saveVideo vid (v\<lparr>status := Failed\<rparr>) w);
          w2 = (case videos w1 vid of
                  None \<Rightarrow> w1
                | Some v \<Rightarrow>
                    (let wa = (if truthy (processedFilePath v)
                               then deleteFile (processedFilePath v) w1 else w1);
                         wb = (if truthy (thumbnailPath v)
                               then deleteFile (thumbnailPath v) wa else wa)
                     in wb))
      in \<lparr>run_error = Some msg, run_sensitivity = None, run_world = w2,
          run_progress = reported, run_promotion = None\<rparr>)"

text \<open>
  \<^verbatim>\<open>processVideo(videoId, progressCallback)\<close> with a progress callback, as the queue calls it.
  Each \<open>failRun\<close> is a \<^verbatim>\<open>throw\<close> or a rejected stage inside the \<^verbatim>\<open>try\<close> block.
\<close>

definition processVideo :: "node_lib \<Rightarrow> engine \<Rightarrow> string \<Rightarrow> world \<Rightarrow> run" where
  "processVideo lib eng vid w =
     (case videos w vid of
        None \<Rightarrow> failRun vid ''Video not found'' w []
      | Some video0 \<Rightarrow>
          (let tid = tenantId video0;
               originalPath = originalFilePath video0
           in if \<not> existsSync w originalPath
              then failRun vid ''Original video file not found'' w []
              else
                (let video1 = video0\<lparr>status := Processing, processingProgress := 0\<rparr>;
                     w1 = saveVideo vid video1 w;
                     p1 = [10];
                     ext = (let e = getFileExtension lib originalPath
                            in if e = [] then ''mp4'' else e);
                     processedPath = getProcessedFilePath lib tid vid ext;
                     thumbPath = getThumbnailPath lib tid vid ''jpg''
                 in case mkdir_error eng of
                      Some msg \<Rightarrow> failRun vid msg w1 p1
                    | None \<Rightarrow>
                        (let p2 = p1 @ transcodeEvents eng;
                             w2 = writeOutput processedPath (transcode_output eng) w1
                         in case transcode_error eng of
                              Some msg \<Rightarrow> failRun vid msg w2 p2
                            | None \<Rightarrow>
                                (let p3 = p2 @ [40];
                                     w3 = writeOutput thumbPath (thumbnail_output eng) w2
                                 in case thumbnail_error eng of
                                      Some msg \<Rightarrow> failRun vid msg w3 p3
                                    | None \<Rightarrow>
                                        (let p4 = p3 @ [thumbnailOverall 100, 60]
                                         in case metadata_result eng of
                                              Inl msg \<Rightarrow> failRun vid msg w3 p4
                                            | Inr d \<Rightarrow>
                                                (let video2 = video1\<lparr>duration := Some d\<rparr>;
                                                     w4 = saveVideo vid video2 w3;
                                                     p5 = p4 @ [70, 70];
                                                     sr = processSensitivityCheck (scan eng);
                                                     p6 = p5 @ map scanOverall (snd sr);
                                                     video3 = video2
                                                       \<lparr>processedFilePath := Some processedPath,
                                                        thumbnailPath := Some thumbPath,
                                                        sensitivityLevel := level (fst sr),
                                                        processingProgress := 100,
                                                        status := (if flagged (fst sr)
                                                                   then Flagged else Safe)\<rparr>;
                                                     w5 = saveVideo vid video3 w4;
                                                     p7 = p6 @ [100]
                                                 in \<lparr>run_error = None,
                                                     run_sensitivity = Some (fst sr),
                                                     run_world = w5,
                                                     run_progress = p7,
                                                     run_promotion = Some vid\<rparr>)))))))"

text \<open>
  The callback of the \<^verbatim>\<open>setTimeout\<close> at the end of a successful run: reload the record, and
  if it is still safe or flagged, set it to ready and save.
\<close>

definition promoteToReady :: "string \<Rightarrow> world \<Rightarrow> world" where
  "promoteToReady vid w =
     (case videos w vid of
        None \<Rightarrow> w
      | Some updatedVideo \<Rightarrow>
          if status updatedVideo = Safe \<or> status updatedVideo = Flagged
          then saveVideo vid (updatedVideo\<lparr>status := Ready\<rparr>) w
          else w)"

subsection \<open>The progress bands as the specification words them\<close>

text \<open>
  A stage whose band starts at \<open>base\<close> and has the given weight maps its internal progress of
  \<open>k\<close> percent linearly into the band: \<open>base + k \<times> weight / 100\<close>, reported as a whole
  percentage (rounded down).
\<close>

definition spec_band :: "int \<Rightarrow> int \<Rightarrow> nat \<Rightarrow> int" where
  "spec_band base weight k = base + (int k * weight) div 100"

text \<open>An engine for the fixture record: every stage succeeds unless changed.\<close>

definition fixture_engine :: engine where
  "fixture_engine =
     \<lparr>mkdir_error = None,
      transcode_progress = [0, 50, 100],
      transcode_error = None,
      transcode_output = Some ''h264'',
      thumbnail_error = None,
      thumbnail_output = Some ''jpeg'',
      metadata_result = Inr 12,
      scan = Frames [\<lparr>brightness = 0.5, skinTone = 0.125\<rparr>, \<lparr>brightness = 0.5, skinTone = 0.125\<rparr>]\<rparr>"

section \<open>Job queue (services/processingQueue.service.js)\<close>

text \<open>
  The module state: the array \<^verbatim>\<open>processingQueue\<close> (a job is a video id together with the
  socket server, which only matters for notifications and is left out), the flag
  \<^verbatim>\<open>isProcessing\<close> and \<^verbatim>\<open>currentVideoId\<close>. Two more components make the behaviour
  observable: the number of \<^verbatim>\<open>setImmediate\<close> callbacks scheduled and not yet run, and the log
  of job starts and ends.
\<close>

datatype run_event = Started string | Finished string bool

record queue_state =
  processingQueue :: "string list"
  isProcessing :: bool
  currentVideoId :: "string option"
  immediates :: nat
  runlog :: "run_event list"

definition initial_queue :: queue_state where
  "initial_queue =
     \<lparr>processingQueue = [], isProcessing = False, currentVideoId = None, immediates = 0,
      runlog = []\<rparr>"

text \<open>
  \<^verbatim>\<open>processNext\<close> up to its first \<^verbatim>\<open>await\<close>: return when busy or when nothing is queued;
  otherwise set the flag, shift the head of the queue and start its run.
\<close>

definition processNext :: "queue_state \<Rightarrow> queue_state" where
  "processNext s =
     (if isProcessing s \<or> length (processingQueue s) = 0 then s
      else (case processingQueue s of
              [] \<Rightarrow> s
            | videoId # rest \<Rightarrow>
                s\<lparr>isProcessing := True, processingQueue := rest,
                  currentVideoId := Some videoId,
                  runlog := runlog s @ [Started videoId]\<rparr>))"

definition addToQueue :: "string \<Rightarrow> queue_state \<Rightarrow> queue_state" where
  "addToQueue videoId s =
     (let s1 = s\<lparr>processingQueue := processingQueue s @ [videoId]\<rparr>
      in if \<not> isProcessing s1 then processNext s1 else s1)"

text \<open>
  The rest of \<^verbatim>\<open>processNext\<close> once the awaited run has resolved (\<open>True\<close>) or rejected
  (\<open>False\<close>): whichever of the \<^verbatim>\<open>try\<close> and \<^verbatim>\<open>catch\<close> bodies ran, the \<^verbatim>\<open>finally\<close> block clears
  the flag and the current id and, when jobs are waiting, schedules \<^verbatim>\<open>processNext\<close> with
  \<^verbatim>\<open>setImmediate\<close>.
\<close>

definition settle :: "bool \<Rightarrow> queue_state \<Rightarrow> queue_state" where
  "settle resolved s =
     (case currentVideoId s of
        None \<Rightarrow> s
      | Some videoId \<Rightarrow>
          (let s1 = s\<lparr>isProcessing := False, currentVideoId := None,
                      runlog := runlog s @ [Finished videoId resolved]\<rparr>
           in if length (processingQueue s1) > 0
              then s1\<lparr>immediates := immediates s1 + 1\<rparr> else s1))"

text \<open>A scheduled \<^verbatim>\<open>setImmediate\<close> callback runs: it calls \<^verbatim>\<open>processNext\<close>.\<close>

definition runImmediate :: "queue_state \<Rightarrow> queue_state" where
  "runImmediate s = processNext (s\<lparr>immediates := immediates s - 1\<rparr>)"

text \<open>
  The turns of the event loop that touch the queue. An upload may call \<^verbatim>\<open>addToQueue\<close> at any
  time; a run can settle only while one is in flight; an immediate can run only when one is
  pending. A turn that is not possible in a state is \<open>None\<close>.
\<close>

datatype queue_turn = Enqueue string | Settle bool | Immediate

definition turn :: "queue_turn \<Rightarrow> queue_state \<Rightarrow> queue_state option" where
  "turn t s =
     (case t of
        Enqueue videoId \<Rightarrow> Some (addToQueue videoId s)
      | Settle resolved \<Rightarrow> if isProcessing s then Some (settle resolved s) else None
      | Immediate \<Rightarrow> if immediates s > 0 then Some (runImmediate s) else None)"

fun turns :: "queue_turn list \<Rightarrow> queue_state \<Rightarrow> queue_state option" where
  "turns [] s = Some s"
| "turns (t # ts) s = (case turn t s of None \<Rightarrow> None | Some s' \<Rightarrow> turns ts s')"

text \<open>
  Letting the queue run dry with no further uploads: while a run is in flight it settles (the
  \<open>n\<close>-th entry of the log decides through \<open>resolves\<close> whether it resolves or rejects), and
  while an immediate is pending it runs.
\<close>

function drain :: "(nat \<Rightarrow> bool) \<Rightarrow> queue_state \<Rightarrow> queue_state" where
  "drain resolves s =
     (if isProcessing s \<and> currentVideoId s \<noteq> None
      then drain resolves (settle (resolves (length (runlog s))) s)
      else if \<not> isProcessing s \<and> immediates s > 0
      then drain resolves (runImmediate s)
      else s)"
  by pat_completeness auto
termination
  by (relation "measure (\<lambda>(r, s). 3 * length (processingQueue s)
                    + (if isProcessing s then 2 else 0) + immediates s)")
     (auto simp: settle_def runImmediate_def processNext_def Let_def split: list.splits if_splits)

declare drain.simps [simp del]

subsection \<open>Reading the log\<close>

text \<open>The ids whose runs were started, in order, and the ids handed to \<^verbatim>\<open>addToQueue\<close>, in order.\<close>

fun started :: "run_event list \<Rightarrow> string list" where
  "started [] = []"
| "started (Started v # es) = v # started es"
| "started (Finished v ok # es) = started es"

fun enqueued :: "queue_turn list \<Rightarrow> string list" where
  "enqueued [] = []"
| "enqueued (Enqueue v # ts) = v # enqueued ts"
| "enqueued (Settle ok # ts) = enqueued ts"
| "enqueued (Immediate # ts) = enqueued ts"

text \<open>
  Replaying a log from a given job in flight (\<open>None\<close>: idle): a start is legal only when idle, an
  end only for the job in flight. The result is the job in flight after the log, or \<open>None\<close> when
  some entry was illegal, that is, when two runs overlapped.
\<close>

fun replay :: "run_event list \<Rightarrow> string option \<Rightarrow> string option option" where
  "replay [] cur = Some cur"
| "replay (Started v # es) cur = (if cur = None then replay es (Some v) else None)"
| "replay (Finished v ok # es) cur = (if cur = Some v then replay es None else None)"

definition one_at_a_time :: "run_event list \<Rightarrow> bool" where
  "one_at_a_time es = (replay es None \<noteq> None)"

text \<open>
  The invariant of the queue, relative to the ids enqueued so far: the log replays legally
  to the current job; the flag is set exactly when a job is current; the started ids followed by
  the waiting ids are the enqueued ids; and an idle queue with waiting jobs has an immediate
  pending.
\<close>

definition queue_inv :: "queue_state \<Rightarrow> string list \<Rightarrow> bool" where
  "queue_inv s q =
     (replay (runlog s) None = Some (currentVideoId s)
      \<and> (isProcessing s = (currentVideoId s \<noteq> None))
      \<and> started (runlog s) @ processingQueue s = q
      \<and> (isProcessing s \<or> processingQueue s = [] \<or> immediates s > 0))"

section \<open>Properties of the rounding\<close>

lemma round_even_floor: "\<lfloor>q\<rfloor> \<le> round_even q"
  by (simp add: round_even_def Let_def)

lemma round_even_floor1: "round_even q \<le> \<lfloor>q\<rfloor> + 1"
  by (simp add: round_even_def Let_def)

lemma round_even_ge:
  assumes "of_int m \<le> q"
  shows "m \<le> round_even q"
proof -
  from assms have "m \<le> \<lfloor>q\<rfloor>" by (simp add: le_floor_iff)
  with round_even_floor[of q] show ?thesis by linarith
qed

lemma round_even_le:
  assumes "q \<le> of_int m"
  shows "round_even q \<le> m"
proof (cases "q - of_int \<lfloor>q\<rfloor> < 1/2")
  case True
  then have "round_even q = \<lfloor>q\<rfloor>" by (simp add: round_even_def Let_def)
  moreover have "\<lfloor>q\<rfloor> \<le> m" using assms by (simp add: floor_le_iff)
  ultimately show ?thesis by simp
next
  case False
  then have "of_int \<lfloor>q\<rfloor> < q" by simp
  with assms have "of_int \<lfloor>q\<rfloor> < (of_int m :: real)" by linarith
  then have "\<lfloor>q\<rfloor> < m" by simp
  with round_even_floor1[of q] show ?thesis by linarith
qed

lemma round_even_of_int [simp]: "round_even (of_int m) = m"
  by (simp add: round_even_def)

lemma round_even_mono:
  assumes "q \<le> q'"
  shows "round_even q \<le> round_even q'"
proof (cases "\<lfloor>q\<rfloor> < \<lfloor>q'\<rfloor>")
  case True
  with round_even_floor1[of q] round_even_floor[of q'] show ?thesis by linarith
next
  case False
  with floor_mono[OF assms] have eq: "\<lfloor>q\<rfloor> = \<lfloor>q'\<rfloor>" by simp
  with assms show ?thesis
    by (auto simp: round_even_def Let_def)
qed

lemma floorlog_window:
  assumes "2 ^ w \<le> n" and "n < 2 ^ Suc w"
  shows "floorlog 2 n = Suc w"
proof -
  have "Suc w \<le> floorlog 2 n" using assms(1) by (intro floorlog_ge_SucI) simp_all
  moreover have "floorlog 2 n \<le> Suc w" using assms(2) by (intro floorlog_leI) simp_all
  ultimately show ?thesis by simp
qed

lemma floorlog_upper: "n < 2 ^ floorlog 2 n"
proof (cases "n = 0")
  case True
  then show ?thesis by simp
next
  case False
  then show ?thesis using floorlog_bounds[of n 2] by simp
qed


text \<open>
  Reading a rounding off: when \<open>x\<close> scaled by \<open>2 ^ a\<close> has exactly 53 bits in front of
  the binary point, \<open>x\<close> is rounded to a multiple of \<open>2 ^ - a\<close>.
\<close>

lemma round_pos_window:
  assumes lo: "2 ^ 52 \<le> x * 2 ^ a" and hi: "x * 2 ^ a < 2 ^ 53" and a: "a \<le> EMIN"
  shows "round_pos x = of_int (round_even (x * 2 ^ a)) / 2 ^ a"
proof -
  define b where "b = EMIN - a"
  have ab: "EMIN = a + b" using a by (simp add: b_def)
  define X where "X = x * 2 ^ EMIN"
  have X: "X = (x * 2 ^ a) * 2 ^ b"
    by (simp add: X_def ab power_add)
  have "2 ^ 52 * 2 ^ b \<le> (x * 2 ^ a) * (2 ^ b :: real)"
    using lo by (intro mult_right_mono) simp_all
  then have lo': "real (2 ^ (52 + b)) \<le> X"
    by (simp add: X power_add)
  have "(x * 2 ^ a) * 2 ^ b < 2 ^ 53 * (2 ^ b :: real)"
    using hi by (intro mult_strict_right_mono) simp_all
  then have hi': "X < real (2 ^ Suc (52 + b))"
    by (simp add: X power_add)
  define n where "n = nat \<lfloor>X\<rfloor>"
  have "(0::real) \<le> real (2 ^ (52 + b))" by simp
  with lo' have X0: "0 \<le> X" by linarith
  have nlo: "2 ^ (52 + b) \<le> n"
    unfolding n_def using lo' by (rule le_nat_floor)
  have "real n \<le> X" unfolding n_def using X0 by (rule of_nat_floor)
  with hi' have "real n < real (2 ^ Suc (52 + b))" by linarith
  then have nhi: "n < 2 ^ Suc (52 + b)" by (simp only: of_nat_less_iff)
  from floorlog_window[OF nlo nhi] have k: "floorlog 2 n - 53 = b" by simp
  have pos: "(2::real) ^ b \<noteq> 0" by simp
  have "round_pos x = of_int (round_even (X / 2 ^ b)) * 2 ^ b / 2 ^ EMIN"
    unfolding round_pos_def Let_def X_def[symmetric] n_def[symmetric] k ..
  also have "X / 2 ^ b = x * 2 ^ a" unfolding X using pos by simp
  also have "of_int (round_even (x * 2 ^ a)) * 2 ^ b / 2 ^ EMIN
      = of_int (round_even (x * 2 ^ a)) / (2 ^ a :: real)"
    unfolding ab power_add by simp
  finally show ?thesis .
qed

lemma round_pos_zero: "round_pos 0 = 0"
  by (simp add: round_pos_def round_even_def)

lemma double_round_zero: "double_round 0 = 0"
  by (simp add: double_round_def round_pos_zero)

lemma double_round_window:
  assumes "2 ^ 52 \<le> x * 2 ^ a" and "x * 2 ^ a < 2 ^ 53" and "a \<le> EMIN"
  shows "double_round x = of_int (round_even (x * 2 ^ a)) / 2 ^ a"
proof -
  have "(0::real) < 2 ^ 52" by simp
  with assms(1) have "0 < x * 2 ^ a" by linarith
  then have "0 < x" by (simp add: zero_less_mult_iff)
  then show ?thesis using round_pos_window[OF assms] by (simp add: double_round_def)
qed


text \<open>Rounding is monotone.\<close>

lemma round_pos_scaled:
  "round_pos x * 2 ^ EMIN
     = of_int (round_even (x * 2 ^ EMIN / 2 ^ (floorlog 2 (nat \<lfloor>x * 2 ^ EMIN\<rfloor>) - 53)))
       * 2 ^ (floorlog 2 (nat \<lfloor>x * 2 ^ EMIN\<rfloor>) - 53)"
  by (simp add: round_pos_def Let_def)

lemma round_pos_mono:
  assumes x0: "0 \<le> x" and xy: "x \<le> y"
  shows "round_pos x \<le> round_pos y"
proof -
  define X where "X = x * 2 ^ EMIN"
  define Y where "Y = y * 2 ^ EMIN"
  define kx where "kx = floorlog 2 (nat \<lfloor>X\<rfloor>)"
  define ky where "ky = floorlog 2 (nat \<lfloor>Y\<rfloor>)"
  have X0: "0 \<le> X" using x0 by (simp add: X_def)
  have XY: "X \<le> Y" using xy by (simp add: X_def Y_def)
  have nxy: "nat \<lfloor>X\<rfloor> \<le> nat \<lfloor>Y\<rfloor>" using XY by (simp add: floor_mono nat_mono)
  have kxy: "kx \<le> ky" unfolding kx_def ky_def using nxy by (rule floorlog_mono)
  have rx: "round_pos x * 2 ^ EMIN = of_int (round_even (X / 2 ^ (kx - 53))) * 2 ^ (kx - 53)"
    unfolding X_def kx_def by (rule round_pos_scaled)
  have ry: "round_pos y * 2 ^ EMIN = of_int (round_even (Y / 2 ^ (ky - 53))) * 2 ^ (ky - 53)"
    unfolding Y_def ky_def by (rule round_pos_scaled)
  have "round_pos x * 2 ^ EMIN \<le> round_pos y * 2 ^ EMIN"
  proof (cases "kx - 53 = ky - 53")
    case True
    have "X / 2 ^ (ky - 53) \<le> Y / 2 ^ (ky - 53)"
      using XY by (simp add: divide_right_mono)
    then have "round_even (X / 2 ^ (ky - 53)) \<le> round_even (Y / 2 ^ (ky - 53))"
      by (rule round_even_mono)
    then have "real_of_int (round_even (X / 2 ^ (ky - 53))) * 2 ^ (ky - 53)
        \<le> real_of_int (round_even (Y / 2 ^ (ky - 53))) * 2 ^ (ky - 53)"
      by (intro mult_right_mono) simp_all
    then show ?thesis unfolding rx ry True .
  next
    case False
    with kxy have lt: "kx < ky" and big: "53 < ky" by linarith+
    define sx where "sx = kx - 53"
    define sy where "sy = ky - 53"
    have sxk: "sx \<le> kx" by (simp add: sx_def)
    have ky52: "ky - 1 = 52 + sy" using big by (simp add: sy_def)
    \<comment> \<open>the rounding of \<open>X\<close> stays below \<open>2 ^ kx\<close>\<close>
    have "real (nat \<lfloor>X\<rfloor>) < real (2 ^ kx)"
      unfolding kx_def of_nat_less_iff by (rule floorlog_upper)
    then have "real_of_int \<lfloor>X\<rfloor> < 2 ^ kx" using X0 by simp
    then have "\<lfloor>X\<rfloor> < 2 ^ kx" by (metis of_int_less_iff of_int_numeral of_int_power)
    then have "\<lfloor>X\<rfloor> + 1 \<le> 2 ^ kx" by simp
    then have "real_of_int (\<lfloor>X\<rfloor> + 1) \<le> 2 ^ kx"
      by (metis of_int_le_iff of_int_numeral of_int_power)
    moreover have "X < real_of_int (\<lfloor>X\<rfloor> + 1)" by linarith
    ultimately have Xk: "X \<le> 2 ^ kx" by linarith
    have split_kx: "(2::real) ^ kx = 2 ^ (kx - sx) * 2 ^ sx"
      using sxk by (simp add: power_add[symmetric])
    have "X / 2 ^ sx \<le> 2 ^ kx / 2 ^ sx" using Xk by (simp add: divide_right_mono)
    also have "\<dots> = real_of_int (2 ^ (kx - sx))" unfolding split_kx by simp
    finally have "round_even (X / 2 ^ sx) \<le> 2 ^ (kx - sx)" by (rule round_even_le)
    then have "real_of_int (round_even (X / 2 ^ sx)) \<le> 2 ^ (kx - sx)"
      by (metis of_int_le_iff of_int_numeral of_int_power)
    then have "real_of_int (round_even (X / 2 ^ sx)) * 2 ^ sx \<le> 2 ^ (kx - sx) * 2 ^ sx"
      by (intro mult_right_mono) simp_all
    then have up: "round_pos x * 2 ^ EMIN \<le> 2 ^ kx"
      unfolding rx sx_def[symmetric] split_kx[symmetric] .
    \<comment> \<open>the rounding of \<open>Y\<close> stays at or above \<open>2 ^ (ky - 1)\<close>\<close>
    have Ypos: "0 < nat \<lfloor>Y\<rfloor>"
    proof (rule ccontr)
      assume "\<not> 0 < nat \<lfloor>Y\<rfloor>"
      then have "ky = 0" by (simp add: ky_def floorlog_def)
      with big show False by simp
    qed
    have "2 ^ (ky - 1) \<le> nat \<lfloor>Y\<rfloor>"
      unfolding ky_def using floorlog_bounds[OF Ypos, of 2] by simp
    then have "real (2 ^ (ky - 1)) \<le> real (nat \<lfloor>Y\<rfloor>)" by (simp only: of_nat_le_iff)
    also have "\<dots> \<le> Y" using Ypos by (intro of_nat_floor) linarith
    finally have "2 ^ (ky - 1) \<le> Y" by simp
    then have Yk: "2 ^ (52 + sy) \<le> Y" unfolding ky52 .
    have "real_of_int (2 ^ 52) = 2 ^ (52 + sy) / 2 ^ sy" by (simp add: power_add)
    also have "\<dots> \<le> Y / 2 ^ sy" using Yk by (simp add: divide_right_mono)
    finally have "2 ^ 52 \<le> round_even (Y / 2 ^ sy)" by (rule round_even_ge)
    then have "real_of_int (2 ^ 52) \<le> real_of_int (round_even (Y / 2 ^ sy))"
      by (simp only: of_int_le_iff)
    then have "real_of_int (2 ^ 52) * 2 ^ sy \<le> real_of_int (round_even (Y / 2 ^ sy)) * 2 ^ sy"
      by (intro mult_right_mono) simp_all
    then have lo: "2 ^ (ky - 1) \<le> round_pos y * 2 ^ EMIN"
      unfolding ry sy_def[symmetric] ky52 by (simp add: power_add)
    have "(2::real) ^ kx \<le> 2 ^ (ky - 1)"
      using lt by (intro power_increasing) simp_all
    with up lo show ?thesis by linarith
  qed
  then show ?thesis by simp
qed

lemma round_pos_nonneg: "0 \<le> x \<Longrightarrow> 0 \<le> round_pos x"
  using round_pos_mono[of 0 x] by (simp add: round_pos_zero)

lemma double_round_mono:
  assumes "x \<le> y"
  shows "double_round x \<le> double_round y"
proof -
  consider "y < 0" | "x < 0" "0 \<le> y" | "0 \<le> x" by linarith
  then show ?thesis
  proof cases
    case 1
    with assms have "round_pos (- y) \<le> round_pos (- x)" by (intro round_pos_mono) simp_all
    with 1 assms show ?thesis by (simp add: double_round_def)
  next
    case 2
    then have "0 \<le> round_pos (- x)" "0 \<le> round_pos y" by (simp_all add: round_pos_nonneg)
    with 2 show ?thesis by (simp add: double_round_def)
  next
    case 3
    with assms have "round_pos x \<le> round_pos y" by (intro round_pos_mono)
    with 3 assms show ?thesis by (simp add: double_round_def)
  qed
qed

lemma double_round_nonneg: "0 \<le> x \<Longrightarrow> 0 \<le> double_round x"
  using double_round_mono[of 0 x] by (simp add: double_round_zero)


text \<open>Evaluating a rounding, and the whole part of a rounding.\<close>

lemma double_round_eval:
  assumes "2 ^ 52 \<le> x * 2 ^ a" and "x * 2 ^ a < 2 ^ 53" and "a \<le> EMIN"
    and "y * 2 ^ a = of_int (round_even (x * 2 ^ a))"
  shows "double_round x = y"
proof -
  have "double_round x = of_int (round_even (x * 2 ^ a)) / 2 ^ a"
    using assms(1-3) by (rule double_round_window)
  also have "\<dots> = y" unfolding assms(4)[symmetric] by simp
  finally show ?thesis .
qed

lemma round_even_lower: "of_int m - 1/2 < q \<Longrightarrow> m \<le> round_even q"
  unfolding round_even_def Let_def by (simp; linarith)

lemma round_even_upper: "q < of_int m + 1/2 \<Longrightarrow> round_even q \<le> m"
  unfolding round_even_def Let_def by (simp; linarith)

lemma floor_double_round:
  assumes "2 ^ 52 \<le> x * 2 ^ a" and "x * 2 ^ a < 2 ^ 53" and "a \<le> EMIN"
    and lo: "of_int q * 2 ^ a - 1/2 < x * 2 ^ a"
    and hi: "x * 2 ^ a < (of_int q + 1) * 2 ^ a - 1/2"
  shows "\<lfloor>double_round x\<rfloor> = q"
proof -
  define r where "r = round_even (x * 2 ^ a)"
  have dr: "double_round x = of_int r / 2 ^ a"
    unfolding r_def using assms(1-3) by (rule double_round_window)
  have "real_of_int (q * 2 ^ a) - 1/2 < x * 2 ^ a" using lo by simp
  then have "q * 2 ^ a \<le> r" unfolding r_def by (rule round_even_lower)
  then have "real_of_int (q * 2 ^ a) \<le> real_of_int r" by (simp only: of_int_le_iff)
  then have l: "real_of_int q \<le> real_of_int r / 2 ^ a" by (simp add: pos_le_divide_eq)
  have "x * 2 ^ a < real_of_int ((q + 1) * 2 ^ a - 1) + 1/2" using hi by simp
  then have "r \<le> (q + 1) * 2 ^ a - 1" unfolding r_def by (rule round_even_upper)
  then have "r < (q + 1) * 2 ^ a" by simp
  then have "real_of_int r < real_of_int ((q + 1) * 2 ^ a)" by (simp only: of_int_less_iff)
  then have u: "real_of_int r / 2 ^ a < real_of_int q + 1" by (simp add: pos_divide_less_eq)
  from l u show ?thesis unfolding dr by (simp add: floor_eq_iff)
qed

section \<open>Properties of the sensitivity scorer\<close>

text \<open>The binary64 values of the literals of the scorer, as fractions.\<close>

lemma lit_01: "double_round (1 / 10) = 3602879701896397 / 36028797018963968"
  by (rule double_round_eval[where a = 56]) (simp_all add: EMIN_def round_even_def)

lemma lit_02: "double_round (1 / 5) = 3602879701896397 / 18014398509481984"
  by (rule double_round_eval[where a = 55]) (simp_all add: EMIN_def round_even_def)

lemma lit_03: "double_round (3 / 10) = 5404319552844595 / 18014398509481984"
  by (rule double_round_eval[where a = 54]) (simp_all add: EMIN_def round_even_def)

lemma lit_04: "double_round (2 / 5) = 3602879701896397 / 9007199254740992"
  by (rule double_round_eval[where a = 54]) (simp_all add: EMIN_def round_even_def)

lemma lit_06: "double_round (3 / 5) = 5404319552844595 / 9007199254740992"
  by (rule double_round_eval[where a = 53]) (simp_all add: EMIN_def round_even_def)

lemma lit_07: "double_round (7 / 10) = 3152519739159347 / 4503599627370496"
  by (rule double_round_eval[where a = 53]) (simp_all add: EMIN_def round_even_def)

lemma lit_08: "double_round (4 / 5) = 3602879701896397 / 4503599627370496"
  by (rule double_round_eval[where a = 53]) (simp_all add: EMIN_def round_even_def)

lemma lit_09: "double_round (9 / 10) = 8106479329266893 / 9007199254740992"
  by (rule double_round_eval[where a = 53]) (simp_all add: EMIN_def round_even_def)

lemma fix_03: "double_round (5404319552844595 / 18014398509481984) = 5404319552844595 / 18014398509481984"
  by (rule double_round_eval[where a = 54]) (simp_all add: EMIN_def round_even_def)

lemma fix_06: "double_round (5404319552844595 / 9007199254740992) = 5404319552844595 / 9007199254740992"
  by (rule double_round_eval[where a = 53]) (simp_all add: EMIN_def round_even_def)

lemma fix_1: "double_round 1 = 1"
  by (rule double_round_eval[where a = 52]) (simp_all add: EMIN_def round_even_def)

lemma fix_50: "double_round 50 = 50"
  by (rule double_round_eval[where a = 47]) (simp_all add: EMIN_def round_even_def)

lemma dadd_0_0: "dadd 0 0 = 0"
  unfolding dadd_def
  by (simp add: double_round_zero)

lemma dmul_commute: "dmul x y = dmul y x"
  by (simp add: dmul_def mult.commute)

lemma double_round_03: "double_round (double_round 0.3) = double_round 0.3"
  by (simp add: lit_03 fix_03)

lemma dadd_zero_03: "dadd 0 (double_round 0.3) = double_round 0.3"
  by (simp add: dadd_def double_round_03)

lemma frameScore_spec: "frameScore a = spec_frame_score a"
  by (simp add: frameScore_def spec_frame_score_def BRIGHTNESS_MIN_def BRIGHTNESS_MAX_def
      Let_def not_le not_less dadd_zero_03 dadd_0_0 dmul_commute[of "skinTone a"])
    (simp add: dadd_def double_round_03)

lemma inlineFrameScore_spec: "inlineFrameScore a = spec_frame_score a"
  by (auto simp: inlineFrameScore_def spec_frame_score_def BRIGHTNESS_MIN_def BRIGHTNESS_MAX_def
      dmul_commute[of "skinTone a"])

lemma fold_scoreStep:
  "fold scoreStep fas (t, n) =
     (foldl dadd t (map spec_frame_score fas),
      n + length (filter (\<lambda>a. spec_frame_score a > 0.5) fas))"
proof (induction fas arbitrary: t n)
  case Nil
  show ?case by simp
next
  case (Cons a fas)
  show ?case
    by (simp add: scoreStep_def[of a] frameScore_spec Let_def Cons.IH)
qed

lemma calculateSensitivityScore_spec:
  "fas \<noteq> [] \<Longrightarrow> calculateSensitivityScore fas = spec_overall_score fas"
  using fold_scoreStep[of fas 0 0]
  by (simp add: calculateSensitivityScore_def spec_overall_score_def spec_mean_score_def
      spec_flagged_fraction_def Let_def min.commute dmul_commute[of "double_round 0.3"])


lemma scan_result_fields:
  "fas \<noteq> [] \<Longrightarrow>
     score (fst (processSensitivityCheck (Frames fas))) = calculateSensitivityScore fas
   \<and> confidence (fst (processSensitivityCheck (Frames fas))) = calculateSensitivityScore fas
   \<and> flagged (fst (processSensitivityCheck (Frames fas)))
       = (calculateSensitivityScore fas > FLAG_THRESHOLD)
   \<and> level (fst (processSensitivityCheck (Frames fas)))
       = spec_level (calculateSensitivityScore fas)
   \<and> flaggedFrames (fst (processSensitivityCheck (Frames fas))) = Some (countFlaggedFrames fas)"
  by (simp add: processSensitivityCheck_def Let_def spec_level_def)


















text \<open>The roundings met on the way of the six-frame example below.\<close>

lemma ev_b_1: "dadd 0 (5404319552844595 / 18014398509481984) = 5404319552844595 / 18014398509481984"
  unfolding dadd_def
  by (rule double_round_eval[where a = 54]) (simp_all add: EMIN_def round_even_def)

lemma ev_b_2: "dmul 1 (3152519739159347 / 4503599627370496) = 3152519739159347 / 4503599627370496"
  unfolding dmul_def
  by (rule double_round_eval[where a = 53]) (simp_all add: EMIN_def round_even_def)

lemma ev_b_3: "dadd (5404319552844595 / 18014398509481984) (3152519739159347 / 4503599627370496) = 1"
  unfolding dadd_def
  by (rule double_round_eval[where a = 53]) (simp_all add: EMIN_def round_even_def)

lemma ev_b_4: "dadd 0 1 = 1"
  unfolding dadd_def
  by (rule double_round_eval[where a = 52]) (simp_all add: EMIN_def round_even_def)

lemma ev_b_5: "dadd 1 0 = 1"
  unfolding dadd_def
  by (rule double_round_eval[where a = 52]) (simp_all add: EMIN_def round_even_def)

lemma ev_b_6: "dmul (1 / 2) (3152519739159347 / 4503599627370496) = 3152519739159347 / 9007199254740992"
  unfolding dmul_def
  by (rule double_round_eval[where a = 54]) (simp_all add: EMIN_def round_even_def)

lemma ev_b_7: "dadd 0 (3152519739159347 / 9007199254740992) = 3152519739159347 / 9007199254740992"
  unfolding dadd_def
  by (rule double_round_eval[where a = 54]) (simp_all add: EMIN_def round_even_def)

lemma ev_b_8: "dadd 1 (3152519739159347 / 9007199254740992) = 3039929748475085 / 2251799813685248"
  unfolding dadd_def
  by (rule double_round_eval[where a = 52]) (simp_all add: EMIN_def round_even_def)

lemma ev_b_9: "dadd (3039929748475085 / 2251799813685248) (3152519739159347 / 9007199254740992) = 1914029841632461 / 1125899906842624"
  unfolding dadd_def
  by (rule double_round_eval[where a = 52]) (simp_all add: EMIN_def round_even_def)

lemma ev_b_10: "dadd 0 (3152519739159347 / 4503599627370496) = 3152519739159347 / 4503599627370496"
  unfolding dadd_def
  by (rule double_round_eval[where a = 53]) (simp_all add: EMIN_def round_even_def)

lemma ev_b_11: "dadd (1914029841632461 / 1125899906842624) (3152519739159347 / 4503599627370496) = 1351079888211149 / 562949953421312"
  unfolding dadd_def
  by (rule double_round_eval[where a = 51]) (simp_all add: EMIN_def round_even_def)

lemma ev_b_12: "ddiv (1351079888211149 / 562949953421312) 6 = 7205759403792795 / 18014398509481984"
  unfolding ddiv_def
  by (rule double_round_eval[where a = 54]) (simp_all add: EMIN_def round_even_def)

lemma ev_b_13: "ddiv 2 6 = 6004799503160661 / 18014398509481984"
  unfolding ddiv_def
  by (rule double_round_eval[where a = 54]) (simp_all add: EMIN_def round_even_def)

lemma ev_b_14: "dmul (6004799503160661 / 18014398509481984) (5404319552844595 / 18014398509481984) = 7205759403792793 / 72057594037927936"
  unfolding dmul_def
  by (rule double_round_eval[where a = 56]) (simp_all add: EMIN_def round_even_def)

lemma ev_b_15: "dadd (7205759403792795 / 18014398509481984) (7205759403792793 / 72057594037927936) = 4503599627370497 / 9007199254740992"
  unfolding dadd_def
  by (rule double_round_eval[where a = 53]) (simp_all add: EMIN_def round_even_def)

lemma ev_b_16: "dmul (3152519739159347 / 4503599627370496) 1 = 3152519739159347 / 4503599627370496"
  unfolding dmul_def
  by (rule double_round_eval[where a = 53]) (simp_all add: EMIN_def round_even_def)

lemma ev_b_17: "dmul (3152519739159347 / 4503599627370496) (1 / 2) = 3152519739159347 / 9007199254740992"
  unfolding dmul_def
  by (rule double_round_eval[where a = 54]) (simp_all add: EMIN_def round_even_def)

lemma ev_b_18: "dmul (5404319552844595 / 18014398509481984) (6004799503160661 / 18014398509481984) = 7205759403792793 / 72057594037927936"
  unfolding dmul_def
  by (rule double_round_eval[where a = 56]) (simp_all add: EMIN_def round_even_def)

text \<open>
  Six frames, the first too dark: the scores are 1, 0, 0, 0.35, 0.35 and 0.7, two of them above
  0.5, and the rounded overall score is 0.5000000000000001: not flagged, and medium because the
  score exceeds 0.5.
\<close>

lemma scorer_medium_example:
  "calculateSensitivityScore
      [\<lparr>brightness = double_round 0.1, skinTone = 1\<rparr>,
       \<lparr>brightness = 0.5, skinTone = 0\<rparr>,
       \<lparr>brightness = 0.5, skinTone = 0\<rparr>,
       \<lparr>brightness = 0.5, skinTone = 0.5\<rparr>,
       \<lparr>brightness = 0.5, skinTone = 0.5\<rparr>,
       \<lparr>brightness = 0.5, skinTone = 1\<rparr>]
     = 4503599627370497 / 9007199254740992
   \<and> level (fst (processSensitivityCheck
      (Frames [\<lparr>brightness = double_round 0.1, skinTone = 1\<rparr>,
       \<lparr>brightness = 0.5, skinTone = 0\<rparr>,
       \<lparr>brightness = 0.5, skinTone = 0\<rparr>,
       \<lparr>brightness = 0.5, skinTone = 0.5\<rparr>,
       \<lparr>brightness = 0.5, skinTone = 0.5\<rparr>,
       \<lparr>brightness = 0.5, skinTone = 1\<rparr>])))
     = Medium
   \<and> flagged (fst (processSensitivityCheck
      (Frames [\<lparr>brightness = double_round 0.1, skinTone = 1\<rparr>,
       \<lparr>brightness = 0.5, skinTone = 0\<rparr>,
       \<lparr>brightness = 0.5, skinTone = 0\<rparr>,
       \<lparr>brightness = 0.5, skinTone = 0.5\<rparr>,
       \<lparr>brightness = 0.5, skinTone = 0.5\<rparr>,
       \<lparr>brightness = 0.5, skinTone = 1\<rparr>])))
     = False"
proof -
  let ?fas = "[\<lparr>brightness = double_round 0.1, skinTone = 1\<rparr>,
       \<lparr>brightness = 0.5, skinTone = 0\<rparr>,
       \<lparr>brightness = 0.5, skinTone = 0\<rparr>,
       \<lparr>brightness = 0.5, skinTone = 0.5\<rparr>,
       \<lparr>brightness = 0.5, skinTone = 0.5\<rparr>,
       \<lparr>brightness = 0.5, skinTone = 1\<rparr>]"
  have sc: "calculateSensitivityScore ?fas = 4503599627370497 / 9007199254740992"
    by (simp add: calculateSensitivityScore_def scoreStep_def frameScore_def Let_def
        BRIGHTNESS_MIN_def BRIGHTNESS_MAX_def
        lit_01 lit_02 lit_03 lit_04 lit_06 lit_07 lit_08 lit_09 fix_03 fix_06 fix_1 fix_50 dadd_0_0
        ev_b_1 ev_b_2 ev_b_3 ev_b_4 dadd_0_0 ev_b_5 ev_b_6 ev_b_7 ev_b_8 ev_b_9 ev_b_10 ev_b_11 ev_b_12 ev_b_13 ev_b_14 ev_b_15 ev_b_16 ev_b_17 ev_b_18)
  have ne: "?fas \<noteq> []" by simp
  from scan_result_fields[OF ne] show ?thesis
    unfolding sc by (simp add: spec_level_def FLAG_THRESHOLD_def lit_06 lit_08)
qed

lemma no_flagged_frames:
  assumes "\<forall>a \<in> set fas. \<not> frameScore a > 0.5"
  shows "filter (\<lambda>a. spec_frame_score a > 0.5) fas = []"
  unfolding filter_empty_conv using assms by (auto simp: frameScore_spec)

text \<open>
  C8. For every non-empty list of frame analyses in which no per-frame score exceeds 0.5, the
  flagged-frame counter of the scoring loop and the flaggedFrames count of the result are 0, and
  the result is not flagged whenever the mean per-frame score is at most 0.6.
\<close>

theorem C8_no_flagged_frames:
  assumes "fas \<noteq> []"
    and "\<forall>a \<in> set fas. \<not> frameScore a > 0.5"
  shows "snd (fold scoreStep fas (0, 0)) = 0
   \<and> flaggedFrames (fst (processSensitivityCheck (Frames fas))) = Some 0
   \<and> (spec_mean_score fas \<le> 0.6 \<longrightarrow> \<not> flagged (fst (processSensitivityCheck (Frames fas))))"
proof -
  have nil: "filter (\<lambda>a. spec_frame_score a > 0.5) fas = []"
    by (rule no_flagged_frames[OF assms(2)])
  have c1: "snd (fold scoreStep fas (0, 0)) = 0"
    unfolding fold_scoreStep nil by simp
  have c2: "countFlaggedFrames fas = 0"
    unfolding countFlaggedFrames_def inlineFrameScore_spec nil by simp
  have z: "dmul (double_round 0.3) (ddiv 0 (real (length fas))) = 0"
    by (simp add: dmul_def ddiv_def double_round_zero)
  have sc: "calculateSensitivityScore fas = min 1 (double_round (spec_mean_score fas))"
    unfolding calculateSensitivityScore_spec[OF assms(1)] spec_overall_score_def
      spec_flagged_fraction_def nil using z by (simp add: dadd_def)
  have c3: "spec_mean_score fas \<le> 0.6 \<longrightarrow> \<not> flagged (fst (processSensitivityCheck (Frames fas)))"
  proof
    assume "spec_mean_score fas \<le> 0.6"
    then have "double_round (spec_mean_score fas) \<le> double_round 0.6"
      by (rule double_round_mono)
    then have "calculateSensitivityScore fas \<le> FLAG_THRESHOLD"
      unfolding sc FLAG_THRESHOLD_def by simp
    with scan_result_fields[OF assms(1)]
    show "\<not> flagged (fst (processSensitivityCheck (Frames fas)))" by simp
  qed
  from c1 c2 c3 scan_result_fields[OF assms(1)] show ?thesis by simp
qed

text \<open>The roundings met on the way of the two-frame example below.\<close>

lemma ev_c_1: "dadd (5404319552844595 / 18014398509481984) 0 = 5404319552844595 / 18014398509481984"
  unfolding dadd_def
  by (rule double_round_eval[where a = 54]) (simp_all add: EMIN_def round_even_def)

lemma ev_c_2: "dadd (5404319552844595 / 18014398509481984) (3152519739159347 / 9007199254740992) = 1463669878895411 / 2251799813685248"
  unfolding dadd_def
  by (rule double_round_eval[where a = 53]) (simp_all add: EMIN_def round_even_def)

lemma ev_c_3: "ddiv (1463669878895411 / 2251799813685248) 2 = 1463669878895411 / 4503599627370496"
  unfolding ddiv_def
  by (rule double_round_eval[where a = 54]) (simp_all add: EMIN_def round_even_def)

lemma ev_c_4: "ddiv 0 2 = 0"
  unfolding ddiv_def
  by (simp add: double_round_zero)

lemma ev_c_5: "dmul 0 (5404319552844595 / 18014398509481984) = 0"
  unfolding dmul_def
  by (simp add: double_round_zero)

lemma ev_c_6: "dadd (1463669878895411 / 4503599627370496) 0 = 1463669878895411 / 4503599627370496"
  unfolding dadd_def
  by (rule double_round_eval[where a = 54]) (simp_all add: EMIN_def round_even_def)

lemma ev_c_7: "dmul (5404319552844595 / 18014398509481984) 0 = 0"
  unfolding dmul_def
  by (simp add: double_round_zero)

text \<open>
  Two frames scoring 0.3 (too dark) and 0.35 (skin tone 0.5): none above 0.5, and the mean is
  0.32499999999999996.
\<close>

theorem C8_no_flagged_frames_witness:
  "snd (fold scoreStep
      [\<lparr>brightness = double_round 0.1, skinTone = double_round 0.2\<rparr>,
       \<lparr>brightness = 0.5, skinTone = 0.5\<rparr>] (0, 0)) = 0
   \<and> flaggedFrames (fst (processSensitivityCheck
      (Frames [\<lparr>brightness = double_round 0.1, skinTone = double_round 0.2\<rparr>,
       \<lparr>brightness = 0.5, skinTone = 0.5\<rparr>])))
     = Some 0
   \<and> spec_mean_score [\<lparr>brightness = double_round 0.1, skinTone = double_round 0.2\<rparr>,
       \<lparr>brightness = 0.5, skinTone = 0.5\<rparr>]
     \<le> 0.6
   \<and> \<not> flagged (fst (processSensitivityCheck
      (Frames [\<lparr>brightness = double_round 0.1, skinTone = double_round 0.2\<rparr>,
       \<lparr>brightness = 0.5, skinTone = 0.5\<rparr>])))"
proof -
  let ?fas = "[\<lparr>brightness = double_round 0.1, skinTone = double_round 0.2\<rparr>,
       \<lparr>brightness = 0.5, skinTone = 0.5\<rparr>]"
  have h1: "?fas \<noteq> []" by simp
  have h2: "\<forall>a \<in> set ?fas. \<not> frameScore a > 0.5"
    by (simp add: frameScore_def BRIGHTNESS_MIN_def BRIGHTNESS_MAX_def
        lit_01 lit_02 lit_03 lit_04 lit_06 lit_07 lit_08 lit_09 fix_03 fix_06 fix_1 fix_50 dadd_0_0
        ev_b_1 ev_c_1 ev_b_6 ev_b_7 ev_c_2 ev_c_3 ev_c_4 ev_c_5 ev_c_6 ev_b_17 ev_c_7)
  have m: "spec_mean_score ?fas \<le> 0.6"
    by (simp add: spec_mean_score_def spec_frame_score_def
        lit_01 lit_02 lit_03 lit_04 lit_06 lit_07 lit_08 lit_09 fix_03 fix_06 fix_1 fix_50 dadd_0_0
        ev_b_1 ev_c_1 ev_b_6 ev_b_7 ev_c_2 ev_c_3 ev_c_4 ev_c_5 ev_c_6 ev_b_17 ev_c_7)
  from C8_no_flagged_frames[OF h1 h2] m show ?thesis by simp
qed

section \<open>Properties of the streaming responder\<close>

lemma is_digit_digit_of: "d < 10 \<Longrightarrow> is_digit (digit_of d)"
proof -
  assume "d < 10"
  then have "d \<in> {0,1,2,3,4,5,6,7,8,9}" by auto
  then show ?thesis by (auto simp: is_digit_def digit_of_def)
qed

lemma digit_val_digit_of: "d < 10 \<Longrightarrow> digit_val (digit_of d) = d"
proof -
  assume "d < 10"
  then have "d \<in> {0,1,2,3,4,5,6,7,8,9}" by auto
  then show ?thesis by (auto simp: digit_val_def digit_of_def)
qed

lemma show_nat_digits: "\<forall>c \<in> set (show_nat n). is_digit c"
proof (induction n rule: show_nat.induct)
  case (1 n)
  show ?case
  proof (cases "n < 10")
    case True
    then show ?thesis by (simp add: show_nat.simps[of n] is_digit_digit_of)
  next
    case False
    with 1 show ?thesis by (simp add: show_nat.simps[of n] is_digit_digit_of)
  qed
qed

lemma show_nat_nonempty: "show_nat n \<noteq> []"
  by (simp add: show_nat.simps[of n])

lemma parseInt_snoc: "parseInt (ds @ [c]) = 10 * parseInt ds + int (digit_val c)"
  by (simp add: parseInt_def)

lemma parseInt_show_nat: "parseInt (show_nat n) = int n"
proof (induction n rule: show_nat.induct)
  case (1 n)
  show ?case
  proof (cases "n < 10")
    case True
    then show ?thesis by (simp add: show_nat.simps[of n] parseInt_def digit_val_digit_of)
  next
    case False
    with 1 have ih: "parseInt (show_nat (n div 10)) = int (n div 10)" by simp
    have split: "10 * int (n div 10) + int (n mod 10) = int n" by presburger
    from False ih split show ?thesis
      by (simp add: show_nat.simps[of n] parseInt_snoc digit_val_digit_of)
  qed
qed

lemma show_int_nat: "show_int (int n) = show_nat n"
  by (simp add: show_int_def)

lemma not_digit_hyphen: "\<not> is_digit CHR ''-''"
  by (simp add: is_digit_def)

lemma match_here_form:
  assumes "\<forall>c \<in> set ds. is_digit c" and "ds \<noteq> []" and "\<forall>c \<in> set de. is_digit c"
  shows "match_here (''bytes='' @ ds @ CHR ''-'' # de) = Some (ds, de)"
proof -
  have t1: "takeWhile is_digit (ds @ CHR ''-'' # de) = ds"
    using assms(1) not_digit_hyphen by (simp add: takeWhile_tail)
  have t2: "dropWhile is_digit (ds @ CHR ''-'' # de) = CHR ''-'' # de"
    using assms(1) not_digit_hyphen by (simp add: dropWhile_append3)
  have t3: "takeWhile is_digit de = de"
    using assms(3) by simp
  show ?thesis
    using assms(2) by (simp add: match_here_def t1 t2 t3)
qed

lemma range_regex_form:
  assumes "\<forall>c \<in> set ds. is_digit c" and "ds \<noteq> []" and "\<forall>c \<in> set de. is_digit c"
  shows "range_regex (''bytes='' @ ds @ CHR ''-'' # de) = Some (ds, de)"
  using match_here_form[OF assms] by simp

lemma range_regex_header:
  "range_regex (range_header s e)
     = Some (show_nat s, case e of None \<Rightarrow> [] | Some n \<Rightarrow> show_nat n)"
proof -
  have d: "\<forall>c \<in> set (case e of None \<Rightarrow> [] | Some n \<Rightarrow> show_nat n). is_digit c"
    using show_nat_digits by (cases e) simp_all
  from range_regex_form[OF show_nat_digits show_nat_nonempty d, of s]
  show ?thesis by (simp add: range_header_def)
qed

lemma parseRange_header:
  assumes "en = (case e of None \<Rightarrow> n - 1 | Some k \<Rightarrow> k)" and "s \<le> en" and "en < n"
  shows "parseRange (Some (range_header s e)) (int n)
           = Some \<lparr>range_start = int s, range_end = int en, chunkSize = int en - int s + 1\<rparr>"
proof -
  have ne: "range_header s e \<noteq> []" by (simp add: range_header_def)
  have e0: "(if (case e of None \<Rightarrow> [] | Some k \<Rightarrow> show_nat k) \<noteq> []
             then parseInt (case e of None \<Rightarrow> [] | Some k \<Rightarrow> show_nat k) else int n - 1) = int en"
    using assms by (cases e) (auto simp: show_nat_nonempty parseInt_show_nat)
  show ?thesis
    using assms(2,3) e0
    by (simp add: parseRange_def ne range_regex_header parseInt_show_nat Let_def)
qed

lemma readSpan_nth:
  assumes "s \<le> e" and "e < length content"
  shows "readSpan content (int s) (int e) = map (\<lambda>i. content ! i) [s ..< e + 1]"
proof (rule nth_equalityI)
  show "length (readSpan content (int s) (int e)) = length (map (\<lambda>i. content ! i) [s ..< e + 1])"
    using assms by (simp add: readSpan_def)
next
  fix i assume "i < length (readSpan content (int s) (int e))"
  with assms show "readSpan content (int s) (int e) ! i = map (\<lambda>i. content ! i) [s ..< e + 1] ! i"
    by (simp add: readSpan_def nth_map_upt del: upt_Suc)
qed

lemma streamVideo_resolved:
  assumes "resolveRecord lib w req = Some v"
  shows "streamVideo lib w req =
     (if status v = Uploaded \<or> status v = Processing
      then Inl (ForbiddenError ''Video is not ready for streaming'')
      else (case (if selectFile v = [] then None else files w (selectFile v)) of
              None \<Rightarrow> Inl (NotFoundError ''Video file'')
            | Some content \<Rightarrow>
                (case parseRange (header_range req) (int (length content)) of
                   None \<Rightarrow>
                     Inr \<lparr>status_code = 200,
                          content_type = Some (pickMimeType lib v (selectFile v)),
                          accept_ranges = Some ''bytes'',
                          content_length = Some (int (length content)),
                          content_range =
                            Some (''bytes 0-'' @ show_int (int (length content) - 1)
                                  @ ''/'' @ show_int (int (length content))),
                          body = Bytes content\<rparr>
                 | Some r \<Rightarrow>
                     Inr \<lparr>status_code = 206,
                          content_type = Some (pickMimeType lib v (selectFile v)),
                          accept_ranges = Some ''bytes'',
                          content_length = Some (chunkSize r),
                          content_range =
                            Some (''bytes '' @ show_int (range_start r)
                                  @ ''-'' @ show_int (range_end r)
                                  @ ''/'' @ show_int (int (length content))),
                          body = Bytes (readSpan content (range_start r) (range_end r))\<rparr>)))"
proof -
  from assms obtain d q where a: "verifyToken lib req = Some d"
    and b: "tenantQuery (payload_tenantId d) (param_videoId req) = Inr q"
    and k: "castObjectId lib (snd q)"
    and c: "findOne w q = Some v"
    by (auto simp: resolveRecord_def split: option.splits sum.splits if_splits)
  show ?thesis by (simp add: streamVideo_def a b c k Let_def cong: option.case_cong)
qed

lemma serveGET_resolved_ready:
  assumes "resolveRecord lib w req = Some v"
    and "status v \<noteq> Uploaded" and "status v \<noteq> Processing"
    and "selectFile v \<noteq> []" and "files w (selectFile v) = Some content"
  shows "serveGET lib w req =
     (case parseRange (header_range req) (int (length content)) of
        None \<Rightarrow>
          \<lparr>status_code = 200,
           content_type = Some (pickMimeType lib v (selectFile v)),
           accept_ranges = Some ''bytes'',
           content_length = Some (int (length content)),
           content_range =
             Some (''bytes 0-'' @ show_int (int (length content) - 1)
                   @ ''/'' @ show_int (int (length content))),
           body = Bytes content\<rparr>
      | Some r \<Rightarrow>
          \<lparr>status_code = 206,
           content_type = Some (pickMimeType lib v (selectFile v)),
           accept_ranges = Some ''bytes'',
           content_length = Some (chunkSize r),
           content_range =
             Some (''bytes '' @ show_int (range_start r)
                   @ ''-'' @ show_int (range_end r)
                   @ ''/'' @ show_int (int (length content))),
           body = Bytes (readSpan content (range_start r) (range_end r))\<rparr>)"
  using assms(2-5)
  by (simp add: serveGET_def streamVideo_resolved[OF assms(1)] split: option.splits)

text \<open>
  C2. For a request that authenticates and resolves a streamable record whose selected file
  exists, and a Range header \<^verbatim>\<open>bytes=s-e\<close> (or \<^verbatim>\<open>bytes=s-\<close>, the end then being the last
  byte) with \<open>0 \<le> s \<le> end < fileSize\<close>: the response is 206 with Content-Range
  \<^verbatim>\<open>bytes s-end/fileSize\<close>, Content-Length \<open>end - s + 1\<close>, Accept-Ranges \<^verbatim>\<open>bytes\<close>, and the
  body is the bytes at offsets \<open>s\<close> to \<open>end\<close> inclusive, as many as the declared length.
\<close>

theorem C2_valid_range_206:
  assumes "resolveRecord lib w req = Some v"
    and "status v \<noteq> Uploaded" and "status v \<noteq> Processing"
    and "selectFile v \<noteq> []" and "files w (selectFile v) = Some content"
    and "header_range req = Some (range_header s e)"
    and "en = (case e of None \<Rightarrow> length content - 1 | Some k \<Rightarrow> k)"
    and "s \<le> en" and "en < length content"
  shows "serveGET lib w req =
           \<lparr>status_code = 206,
            content_type = Some (pickMimeType lib v (selectFile v)),
            accept_ranges = Some ''bytes'',
            content_length = Some (int en - int s + 1),
            content_range =
              Some (''bytes '' @ show_nat s @ ''-'' @ show_nat en
                    @ ''/'' @ show_nat (length content)),
            body = Bytes (map (\<lambda>i. content ! i) [s ..< en + 1])\<rparr>
         \<and> int (length (map (\<lambda>i. content ! i) [s ..< en + 1])) = int en - int s + 1"
proof -
  have pr: "parseRange (header_range req) (int (length content))
              = Some \<lparr>range_start = int s, range_end = int en, chunkSize = int en - int s + 1\<rparr>"
    unfolding assms(6) by (rule parseRange_header[OF assms(7) assms(8) assms(9)])
  have sp: "readSpan content (int s) (int en) = map (\<lambda>i. content ! i) [s ..< en + 1]"
    by (rule readSpan_nth[OF assms(8) assms(9)])
  have len: "int (length (map (\<lambda>i. content ! i) [s ..< en + 1])) = int en - int s + 1"
    using assms(8) by simp
  from serveGET_resolved_ready[OF assms(1-5)] pr sp len show ?thesis
    by (simp add: show_int_nat del: upt_Suc)
qed

lemma fixture_resolves:
  "resolveRecord fixture_lib (fixture_world st pr) (fixture_request (Some ''good'') rng)
     = Some (fixture_video st pr)"
  by (simp add: resolveRecord_def verifyToken_def or_else_def truthy_def fixture_lib_def
      fixture_request_def fixture_world_def fixture_video_def tenantQuery_def findOne_def)

lemma fixture_file:
  "selectFile (fixture_video st None) = ''stream.mp4''
   \<and> files (fixture_world st pr) ''stream.mp4'' = Some ''0123456789''
   \<and> pickMimeType lib (fixture_video st pr) p = ''video/mp4''"
  by (simp add: selectFile_def or_else_def truthy_def fixture_video_def fixture_world_def
      pickMimeType_def)

text \<open>The ten-byte fixture file asked for \<^verbatim>\<open>bytes=2-5\<close>.\<close>

theorem C2_valid_range_206_witness:
  "serveGET fixture_lib (fixture_world Ready None)
       (fixture_request (Some ''good'') (Some ''bytes=2-5''))
     = \<lparr>status_code = 206, content_type = Some ''video/mp4'', accept_ranges = Some ''bytes'',
        content_length = Some 4, content_range = Some ''bytes 2-5/10'',
        body = Bytes ''2345''\<rparr>"
proof -
  let ?req = "fixture_request (Some ''good'') (Some ''bytes=2-5'')"
  let ?v = "fixture_video Ready None"
  have h1: "resolveRecord fixture_lib (fixture_world Ready None) ?req = Some ?v"
    by (rule fixture_resolves)
  have h2: "status ?v \<noteq> Uploaded" and h3: "status ?v \<noteq> Processing"
    by (simp_all add: fixture_video_def)
  have h4: "selectFile ?v \<noteq> []"
    and h5: "files (fixture_world Ready None) (selectFile ?v) = Some ''0123456789''"
    by (simp_all add: fixture_file)
  have h6: "header_range ?req = Some (range_header 2 (Some 5))"
    by (simp add: fixture_request_def range_header_def show_nat.simps digit_of_def)
  have h7: "(5::nat) = (case Some 5 of None \<Rightarrow> length ''0123456789'' - 1 | Some k \<Rightarrow> k)"
    by simp
  have h8: "(2::nat) \<le> 5" and h9: "5 < length ''0123456789''"
    by simp_all
  have r1: "show_nat 2 = ''2''" and r2: "show_nat 5 = ''5''"
    and r3: "show_nat (length ''0123456789'') = ''10''"
    by code_simp+
  have r4: "map (\<lambda>i. ''0123456789'' ! i) [2 ..< 5 + 1] = ''2345''"
    by (simp add: upt_rec)
  from C2_valid_range_206[OF h1 h2 h3 h4 h5 h6 h7 h8 h9]
  show ?thesis
    unfolding r1 r2 r3 r4 by (simp add: fixture_file)
qed








lemma getStreamInfo_resolved:
  assumes "resolveRecord lib w req = Some v"
  shows "getStreamInfo lib w req =
     (case (if selectFile v = [] then None else files w (selectFile v)) of
        None \<Rightarrow> jsonResponse 404 ''Video file not found''
      | Some content \<Rightarrow>
          \<lparr>status_code = 200,
           content_type = Some (pickMimeType lib v (selectFile v)),
           accept_ranges = Some ''bytes'',
           content_length = Some (int (length content)),
           content_range = None,
           body = NoBody\<rparr>)"
proof -
  from assms obtain d q where a: "verifyToken lib req = Some d"
    and b: "tenantQuery (payload_tenantId d) (param_videoId req) = Inr q"
    and k: "castObjectId lib (snd q)"
    and c: "findOne w q = Some v"
    by (auto simp: resolveRecord_def split: option.splits sum.splits if_splits)
  show ?thesis by (simp add: getStreamInfo_def a b c k Let_def cong: option.case_cong)
qed

text \<open>
  Every request to the streaming path, GET or HEAD, is answered by \<^verbatim>\<open>streamVideo\<close>: the GET
  route comes first and takes HEAD requests too, so the handler registered for HEAD is never
  reached.
\<close>

lemma routeStream_always_get:
  "routeStream lib w m req = sendFor m (serveGET lib w req)"
  by (cases m) (simp_all add: routeStream_def streamRoutes_def handles_method_def)

lemma head_not_ready:
  assumes "resolveRecord lib w req = Some v"
    and "status v = Uploaded \<or> status v = Processing"
  shows "routeStream lib w HEAD req =
           \<lparr>status_code = 403, content_type = None, accept_ranges = None,
            content_length = None, content_range = None, body = NoBody\<rparr>"
  using assms(2)
  by (auto simp: routeStream_always_get sendFor_def serveGET_def
      streamVideo_resolved[OF assms(1)] errorHandler_def)

text \<open>
  C10 (what the program does at the failing input). A HEAD request with a token that verifies,
  for the fixture record while it is processing, its original file on disk and no derivative
  named: the router answers through the GET route with the not-ready error, 403 and no body.
  The handler \<^verbatim>\<open>getStreamInfo\<close>, had the request reached it, would have answered 200 with
  Content-Type, Accept-Ranges and Content-Length.
\<close>

theorem C10_head_request_not_ready:
  "routeStream fixture_lib (fixture_world Processing None) HEAD
       (fixture_request (Some ''good'') None)
     = \<lparr>status_code = 403, content_type = None, accept_ranges = None,
        content_length = None, content_range = None, body = NoBody\<rparr>
   \<and> getStreamInfo fixture_lib (fixture_world Processing None)
       (fixture_request (Some ''good'') None)
     = \<lparr>status_code = 200, content_type = Some ''video/mp4'', accept_ranges = Some ''bytes'',
        content_length = Some 10, content_range = None, body = NoBody\<rparr>"
proof -
  let ?req = "fixture_request (Some ''good'') None"
  let ?v = "fixture_video Processing None"
  have h1: "resolveRecord fixture_lib (fixture_world Processing None) ?req = Some ?v"
    by (rule fixture_resolves)
  have h2: "status ?v = Uploaded \<or> status ?v = Processing"
    by (simp add: fixture_video_def)
  have a: "routeStream fixture_lib (fixture_world Processing None) HEAD ?req
     = \<lparr>status_code = 403, content_type = None, accept_ranges = None,
        content_length = None, content_range = None, body = NoBody\<rparr>"
    by (rule head_not_ready[OF h1 h2])
  have b: "getStreamInfo fixture_lib (fixture_world Processing None) ?req
     = \<lparr>status_code = 200, content_type = Some ''video/mp4'', accept_ranges = Some ''bytes'',
        content_length = Some 10, content_range = None, body = NoBody\<rparr>"
    by (simp add: getStreamInfo_resolved[OF h1] fixture_file)
  from a b show ?thesis by simp
qed

subsection \<open>What the range pattern accepts\<close>

lemma match_here_Some_shape:
  assumes "match_here s = Some (m1, m2)"
  shows "\<exists>rest. s = ''bytes='' @ m1 @ CHR ''-'' # m2 @ rest
           \<and> m1 \<noteq> [] \<and> (\<forall>c \<in> set m1. is_digit c) \<and> (\<forall>c \<in> set m2. is_digit c)
           \<and> (rest = [] \<or> \<not> is_digit (hd rest))"
proof -
  from assms have p: "take 6 s = ''bytes=''"
    by (simp add: match_here_def split: if_splits)
  let ?r = "drop 6 s"
  from assms p obtain r'' where
    g1: "m1 = takeWhile is_digit ?r" and ne: "m1 \<noteq> []"
    and d: "dropWhile is_digit ?r = CHR ''-'' # r''" and g2: "m2 = takeWhile is_digit r''"
    by (auto simp: match_here_def Let_def split: if_splits list.splits)
  have s: "s = take 6 s @ ?r" by simp
  have r: "?r = takeWhile is_digit ?r @ dropWhile is_digit ?r" by simp
  have r2: "r'' = takeWhile is_digit r'' @ dropWhile is_digit r''" by simp
  have tail: "dropWhile is_digit r'' = [] \<or> \<not> is_digit (hd (dropWhile is_digit r''))"
    using hd_dropWhile[of is_digit r''] by blast
  have "s = ''bytes='' @ m1 @ CHR ''-'' # m2 @ dropWhile is_digit r''"
    using s r r2 p g1 d g2 by (metis append_Cons)
  moreover have "\<forall>c \<in> set m1. is_digit c" "\<forall>c \<in> set m2. is_digit c"
    using g1 g2 by (auto dest: set_takeWhileD)
  ultimately show ?thesis using ne tail by blast
qed

lemma match_here_complete:
  assumes "\<forall>c \<in> set ds. is_digit c" and "ds \<noteq> []"
  shows "match_here (''bytes='' @ ds @ CHR ''-'' # rest) \<noteq> None"
proof -
  have t1: "takeWhile is_digit (ds @ CHR ''-'' # rest) = ds"
    using assms(1) not_digit_hyphen by (simp add: takeWhile_tail)
  have t2: "dropWhile is_digit (ds @ CHR ''-'' # rest) = CHR ''-'' # rest"
    using assms(1) not_digit_hyphen by (simp add: dropWhile_append3)
  show ?thesis
    using assms(2) by (simp add: match_here_def t1 t2)
qed

text \<open>
  The pattern finds no match exactly when the header has no occurrence of \<^verbatim>\<open>bytes=\<close>
  followed by at least one digit and a hyphen.
\<close>

lemma range_regex_None_iff:
  "range_regex s = None \<longleftrightarrow>
     \<not> (\<exists>pre ds rest. s = pre @ ''bytes='' @ ds @ CHR ''-'' # rest
            \<and> ds \<noteq> [] \<and> (\<forall>c \<in> set ds. is_digit c))"
proof (induction s)
  case Nil
  show ?case by simp
next
  case (Cons c cs)
  show ?case
  proof (cases "match_here (c # cs)")
    case (Some m)
    obtain m1 m2 where m: "m = (m1, m2)" by (cases m)
    from match_here_Some_shape[OF Some[unfolded m]] obtain rest where
      "c # cs = [] @ ''bytes='' @ m1 @ CHR ''-'' # (m2 @ rest)" "m1 \<noteq> []" "\<forall>c \<in> set m1. is_digit c"
      by auto
    then have "\<exists>pre ds rest. c # cs = pre @ ''bytes='' @ ds @ CHR ''-'' # rest
            \<and> ds \<noteq> [] \<and> (\<forall>c \<in> set ds. is_digit c)"
      by blast
    with Some show ?thesis by simp
  next
    case None
    have "(\<exists>pre ds rest. c # cs = pre @ ''bytes='' @ ds @ CHR ''-'' # rest
            \<and> ds \<noteq> [] \<and> (\<forall>c \<in> set ds. is_digit c))
        \<longleftrightarrow> (\<exists>pre ds rest. cs = pre @ ''bytes='' @ ds @ CHR ''-'' # rest
            \<and> ds \<noteq> [] \<and> (\<forall>c \<in> set ds. is_digit c))" (is "?L \<longleftrightarrow> ?R")
    proof
      assume ?L
      then obtain pre ds rest where e: "c # cs = pre @ ''bytes='' @ ds @ CHR ''-'' # rest"
        and d: "ds \<noteq> []" "\<forall>c \<in> set ds. is_digit c" by blast
      show ?R
      proof (cases pre)
        case Nil
        with e have "c # cs = ''bytes='' @ ds @ CHR ''-'' # rest" by simp
        with match_here_complete[OF d(2) d(1), of rest] None show ?thesis by simp
      next
        case (Cons p ps)
        with e have "cs = ps @ ''bytes='' @ ds @ CHR ''-'' # rest" by simp
        with d show ?thesis by blast
      qed
    next
      assume ?R
      then obtain pre ds rest where e: "cs = pre @ ''bytes='' @ ds @ CHR ''-'' # rest"
        and d: "ds \<noteq> []" "\<forall>c \<in> set ds. is_digit c" by blast
      from e have "c # cs = (c # pre) @ ''bytes='' @ ds @ CHR ''-'' # rest" by simp
      with d show ?L by blast
    qed
    with None Cons.IH show ?thesis by simp
  qed
qed

subsection \<open>Invalid ranges\<close>

lemma range_regex_None_no_pattern: "range_regex h = None \<longleftrightarrow> no_range_pattern h"
  by (simp add: range_regex_None_iff no_range_pattern_def pattern_at_def list_all_iff)

lemma match_here_at_start:
  assumes "list_all is_digit ds" and "ds \<noteq> []" and "list_all is_digit de"
    and "rest = [] \<or> \<not> is_digit (hd rest)"
  shows "match_here (''bytes='' @ ds @ CHR ''-'' # de @ rest) = Some (ds, de)"
proof -
  have t1: "takeWhile is_digit (ds @ CHR ''-'' # de @ rest) = ds"
    using assms(1) not_digit_hyphen by (simp add: takeWhile_tail list_all_iff)
  have t2: "dropWhile is_digit (ds @ CHR ''-'' # de @ rest) = CHR ''-'' # de @ rest"
    using assms(1) not_digit_hyphen by (simp add: dropWhile_append3 list_all_iff)
  have t3: "takeWhile is_digit (de @ rest) = de"
  proof (cases rest)
    case Nil
    with assms(3) show ?thesis by (simp add: list_all_iff)
  next
    case (Cons c cs)
    with assms(4) have "\<not> is_digit c" by simp
    with assms(3) Cons show ?thesis by (simp add: takeWhile_tail list_all_iff)
  qed
  show ?thesis
    using assms(2) by (simp add: match_here_def t1 t2 t3)
qed

lemma leftmost_regex_aux:
  assumes "pattern_at h pre ds (de @ rest)" and "list_all is_digit de"
    and "rest = [] \<or> \<not> is_digit (hd rest)"
    and "\<forall>pre' ds' rest'. pattern_at h pre' ds' rest' \<longrightarrow> length pre \<le> length pre'"
  shows "range_regex h = Some (ds, de)"
  using assms
proof (induction pre arbitrary: h)
  case Nil
  then have h: "h = ''bytes='' @ ds @ CHR ''-'' # de @ rest" and d: "ds \<noteq> []" "list_all is_digit ds"
    by (simp_all add: pattern_at_def)
  from match_here_at_start[OF d(2) d(1) Nil.prems(2) Nil.prems(3)]
  have "match_here h = Some (ds, de)" by (simp add: h)
  moreover from h obtain c cs where "h = c # cs" by (cases h) auto
  ultimately show ?case by simp
next
  case (Cons p ps)
  from Cons.prems(1) obtain h' where h: "h = p # h'"
    and at': "pattern_at h' ps ds (de @ rest)"
    by (auto simp: pattern_at_def)
  have nomatch: "match_here h = None"
  proof (rule ccontr)
    assume "match_here h \<noteq> None"
    then obtain m1 m2 where "match_here h = Some (m1, m2)" by (cases "match_here h") auto
    from match_here_Some_shape[OF this] obtain r where
      "h = ''bytes='' @ m1 @ CHR ''-'' # m2 @ r" "m1 \<noteq> []" "\<forall>c \<in> set m1. is_digit c"
      by blast
    then have "pattern_at h [] m1 (m2 @ r)"
      by (simp add: pattern_at_def list_all_iff)
    with Cons.prems(4) have "length (p # ps) \<le> length ([]::string)" by blast
    then show False by simp
  qed
  have min': "\<forall>pre' ds' rest'. pattern_at h' pre' ds' rest' \<longrightarrow> length ps \<le> length pre'"
  proof (intro allI impI)
    fix pre' ds' rest' assume "pattern_at h' pre' ds' rest'"
    then have "pattern_at h (p # pre') ds' rest'"
      by (simp add: pattern_at_def h)
    with Cons.prems(4) have "length (p # ps) \<le> length (p # pre')" by blast
    then show "length ps \<le> length pre'" by simp
  qed
  from Cons.IH[OF at' Cons.prems(2) Cons.prems(3) min'] have "range_regex h' = Some (ds, de)" .
  with nomatch h show ?case by simp
qed

lemma leftmost_regex:
  assumes "leftmost_range h ds de"
  shows "range_regex h = Some (ds, de)"
  using assms leftmost_regex_aux unfolding leftmost_range_def by blast

lemma pattern_nonempty: "pattern_at h pre ds rest \<Longrightarrow> h \<noteq> []"
  by (auto simp: pattern_at_def)

lemma spec_invalid_parse:
  assumes "spec_range_invalid hdr fileSize"
  shows "parseRange hdr fileSize = None"
proof (cases hdr)
  case None
  then show ?thesis by (simp add: parseRange_def)
next
  case (Some h)
  with assms consider (np) "no_range_pattern h"
    | (lm) ds de where "leftmost_range h ds de"
        "parseInt ds > (if de = [] then fileSize - 1 else parseInt de) \<or> parseInt ds < 0
         \<or> (if de = [] then fileSize - 1 else parseInt de) \<ge> fileSize \<or> parseInt ds \<ge> fileSize"
    by (auto simp: spec_range_invalid_def Let_def)
  then show ?thesis
  proof cases
    case np
    then have "range_regex h = None" by (simp add: range_regex_None_no_pattern)
    with Some show ?thesis by (simp add: parseRange_def)
  next
    case lm
    from leftmost_regex[OF lm(1)] have r: "range_regex h = Some (ds, de)" .
    from lm(2) have "parseInt ds > (if de \<noteq> [] then parseInt de else fileSize - 1) \<or> parseInt ds < 0
         \<or> (if de \<noteq> [] then parseInt de else fileSize - 1) \<ge> fileSize"
      by (cases "de = []") auto
    with Some r show ?thesis by (simp add: parseRange_def Let_def)
  qed
qed

text \<open>
  The claim C3 as stated counts a header that is not of the form \<^verbatim>\<open>bytes=<start>-<end>\<close> as
  invalid and promises the full content for it. The responder searches the pattern anywhere in
  the header: the two-range header \<^verbatim>\<open>bytes=1-3,5-6\<close> is not of the exact form, and is
  answered 206 with the bytes 1 to 3.
\<close>

theorem C3_not_exact_form_counterexample:
  "\<not> exact_form ''bytes=1-3,5-6''
   \<and> serveGET fixture_lib (fixture_world Ready None)
       (fixture_request (Some ''good'') (Some ''bytes=1-3,5-6''))
     = \<lparr>status_code = 206, content_type = Some ''video/mp4'', accept_ranges = Some ''bytes'',
        content_length = Some 3, content_range = Some ''bytes 1-3/10'',
        body = Bytes ''123''\<rparr>"
proof -
  let ?req = "fixture_request (Some ''good'') (Some ''bytes=1-3,5-6'')"
  let ?v = "fixture_video Ready None"
  have h1: "resolveRecord fixture_lib (fixture_world Ready None) ?req = Some ?v"
    by (rule fixture_resolves)
  have h2: "status ?v \<noteq> Uploaded" and h3: "status ?v \<noteq> Processing"
    by (simp_all add: fixture_video_def)
  have h4: "selectFile ?v \<noteq> []"
    and h5: "files (fixture_world Ready None) (selectFile ?v) = Some ''0123456789''"
    by (simp_all add: fixture_file)
  have nf: "\<not> exact_form ''bytes=1-3,5-6''"
    by (simp add: exact_form_def is_digit_def)
  have pr: "parseRange (header_range ?req) (int (length ''0123456789''))
      = Some \<lparr>range_start = 1, range_end = 3, chunkSize = 3\<rparr>"
    by (simp add: fixture_request_def parseRange_def match_here_def is_digit_def parseInt_def
        digit_val_def)
  have r1: "show_int 1 = ''1''" and r2: "show_int 3 = ''3''"
    and r3: "show_int 10 = ''10''"
    by code_simp+
  have sp: "readSpan ''0123456789'' 1 3 = ''123''"
    by (simp add: readSpan_def)
  from serveGET_resolved_ready[OF h1 h2 h3 h4 h5] nf
  show ?thesis
    unfolding pr by (simp add: r1 r2 r3 sp fixture_file)
qed

text \<open>
  C3 (amended). For a request that authenticates and resolves a streamable record whose
  selected file exists: when the Range header is absent, or contains no occurrence of the
  pattern (the text \<^verbatim>\<open>bytes=\<close>, digits, a hyphen) anywhere, or its leftmost occurrence has
  \<open>start > end\<close>, \<open>start < 0\<close> or \<open>end \<ge> fileSize\<close>, in particular \<open>start \<ge> fileSize\<close>, the
  response is 200 (not a 4xx) with Content-Range \<^verbatim>\<open>bytes 0-(fileSize-1)/fileSize\<close>,
  Content-Length \<open>fileSize\<close> and the whole file as body.
\<close>

theorem C3_invalid_range_200:
  assumes "resolveRecord lib w req = Some v"
    and "status v \<noteq> Uploaded" and "status v \<noteq> Processing"
    and "selectFile v \<noteq> []" and "files w (selectFile v) = Some content"
    and "spec_range_invalid (header_range req) (int (length content))"
  shows "serveGET lib w req =
           \<lparr>status_code = 200,
            content_type = Some (pickMimeType lib v (selectFile v)),
            accept_ranges = Some ''bytes'',
            content_length = Some (int (length content)),
            content_range =
              Some (''bytes 0-'' @ show_int (int (length content) - 1)
                    @ ''/'' @ show_int (int (length content))),
            body = Bytes content\<rparr>"
proof -
  from spec_invalid_parse[OF assms(6)]
  have "parseRange (header_range req) (int (length content)) = None" .
  with serveGET_resolved_ready[OF assms(1-5)] show ?thesis by simp
qed

lemma leftmost_at_start:
  assumes "list_all is_digit ds" and "ds \<noteq> []" and "list_all is_digit de"
    and "rest = [] \<or> \<not> is_digit (hd rest)"
  shows "leftmost_range (''bytes='' @ ds @ CHR ''-'' # de @ rest) ds de"
  unfolding leftmost_range_def
  by (rule exI[of _ "[]"], rule exI[of _ rest]) (simp add: pattern_at_def assms)

text \<open>Conversely, a leftmost range within the file is answered 206, whatever surrounds it.\<close>

lemma leftmost_valid_206:
  assumes "resolveRecord lib w req = Some v"
    and "status v \<noteq> Uploaded" and "status v \<noteq> Processing"
    and "selectFile v \<noteq> []" and "files w (selectFile v) = Some content"
    and "header_range req = Some h" and "leftmost_range h ds de"
    and "en = (if de = [] then int (length content) - 1 else parseInt de)"
    and "parseInt ds \<le> en" and "en < int (length content)"
  shows "status_code (serveGET lib w req) = 206"
proof -
  from assms(7) have ne: "h \<noteq> []"
    unfolding leftmost_range_def using pattern_nonempty by blast
  have "0 \<le> parseInt ds" by (simp add: parseInt_def)
  with assms(8-10) leftmost_regex[OF assms(7)] ne
  have "parseRange (Some h) (int (length content)) \<noteq> None"
    by (auto simp: parseRange_def Let_def)
  then obtain r where "parseRange (header_range req) (int (length content)) = Some r"
    using assms(6) by auto
  with serveGET_resolved_ready[OF assms(1-5)] show ?thesis by simp
qed

text \<open>The ten-byte fixture file asked for \<^verbatim>\<open>bytes=20-30\<close>.\<close>

theorem C3_invalid_range_200_witness:
  "spec_range_invalid (Some ''bytes=20-30'') 10
   \<and> serveGET fixture_lib (fixture_world Ready None)
       (fixture_request (Some ''good'') (Some ''bytes=20-30''))
     = \<lparr>status_code = 200, content_type = Some ''video/mp4'', accept_ranges = Some ''bytes'',
        content_length = Some 10, content_range = Some ''bytes 0-9/10'',
        body = Bytes ''0123456789''\<rparr>"
proof -
  let ?req = "fixture_request (Some ''good'') (Some ''bytes=20-30'')"
  let ?v = "fixture_video Ready None"
  have h1: "resolveRecord fixture_lib (fixture_world Ready None) ?req = Some ?v"
    by (rule fixture_resolves)
  have h2: "status ?v \<noteq> Uploaded" and h3: "status ?v \<noteq> Processing"
    by (simp_all add: fixture_video_def)
  have h4: "selectFile ?v \<noteq> []"
    and h5: "files (fixture_world Ready None) (selectFile ?v) = Some ''0123456789''"
    by (simp_all add: fixture_file)
  have lm: "leftmost_range (''bytes='' @ ''20'' @ CHR ''-'' # ''30'' @ []) ''20'' ''30''"
    by (rule leftmost_at_start) (simp_all add: is_digit_def)
  have p: "parseInt ''20'' = 20" "parseInt ''30'' = 30"
    by (simp_all add: parseInt_def digit_val_def)
  from lm p have "leftmost_range ''bytes=20-30'' ''20'' ''30''
          \<and> (let start = parseInt ''20''; en = (if ''30'' = [] then 10 - 1 else parseInt ''30'')
              in start > en \<or> start < 0 \<or> en \<ge> 10 \<or> start \<ge> (10::int))"
    by (simp add: Let_def)
  then have "\<exists>ds de. leftmost_range ''bytes=20-30'' ds de
          \<and> (let start = parseInt ds; en = (if de = [] then 10 - 1 else parseInt de)
              in start > en \<or> start < 0 \<or> en \<ge> 10 \<or> start \<ge> (10::int))"
    by blast
  then have inv: "spec_range_invalid (Some ''bytes=20-30'') 10"
    by (simp add: spec_range_invalid_def)
  have h6: "spec_range_invalid (header_range ?req) (int (length ''0123456789''))"
    using inv by (simp add: fixture_request_def)
  have r1: "show_int (int (length ''0123456789'') - 1) = ''9''"
    and r2: "show_int (int (length ''0123456789'')) = ''10''"
    by code_simp+
  from C3_invalid_range_200[OF h1 h2 h3 h4 h5 h6] inv
  show ?thesis
    unfolding r1 r2 by (simp add: fixture_file)
qed


section \<open>Properties of the transcode pipeline\<close>

lemma failRun_error: "run_error (failRun vid msg w ps) = Some msg"
  by (simp add: failRun_def Let_def)

lemma success_progress:
  assumes "run_error (processVideo lib eng vid w) = None"
  shows "run_progress (processVideo lib eng vid w) =
           [10] @ transcodeEvents eng @ [40, thumbnailOverall 100, 60, 70, 70]
           @ map scanOverall (snd (processSensitivityCheck (scan eng))) @ [100]"
  using assms
  by (auto simp: processVideo_def failRun_error Let_def split: option.splits sum.splits if_splits)

subsection \<open>The progress adapters on whole percentages\<close>

lemma div10_real:
  fixes k :: nat
  shows "10 * real (3 * k div 10) \<le> 3 * real k \<and> 3 * real k \<le> 10 * real (3 * k div 10) + 9"
proof -
  have a: "10 * (3 * k div 10) \<le> 3 * k" by simp
  have b: "3 * k \<le> 10 * (3 * k div 10) + 9"
    using mod_less_divisor[of 10 "3 * k"] div_mult_mod_eq[of "3 * k" 10] by linarith
  from a have "real (10 * (3 * k div 10)) \<le> real (3 * k)" by (simp only: of_nat_le_iff)
  moreover from b have "real (3 * k) \<le> real (10 * (3 * k div 10) + 9)"
    by (simp only: of_nat_le_iff)
  ultimately show ?thesis by simp
qed

lemma div5_real:
  fixes k :: nat
  shows "5 * real (k div 5) \<le> real k \<and> real k \<le> 5 * real (k div 5) + 4"
proof -
  have a: "5 * (k div 5) \<le> k" by simp
  have b: "k \<le> 5 * (k div 5) + 4"
    using mod_less_divisor[of 5 k] div_mult_mod_eq[of k 5] by linarith
  from a have "real (5 * (k div 5)) \<le> real k" by (simp only: of_nat_le_iff)
  moreover from b have "real k \<le> real (5 * (k div 5) + 4)" by (simp only: of_nat_le_iff)
  ultimately show ?thesis by simp
qed

text \<open>
  For a whole percentage \<open>k\<close> up to 100 the rounded product with 0.3 has the whole part
  \<open>3k div 10\<close>, and the rounded product with 0.2 the whole part \<open>k div 5\<close>: the cases follow
  the power of two below the product.
\<close>

lemma floor_mul_03:
  assumes "k \<le> 100"
  shows "\<lfloor>dmul (real k) (double_round 0.3)\<rfloor> = int (3 * k div 10)"
proof -
  define q where "q = 3 * k div 10"
  have q: "10 * real q \<le> 3 * real k" "3 * real k \<le> 10 * real q + 9"
    using div10_real[of k] by (simp_all add: q_def)
  have v: "double_round 0.3 = 5404319552844595 / 18014398509481984"
    by (simp add: lit_03)
  consider "k = 0"
    | "k = 1"
    | "2 \<le> k" "k \<le> 3"
    | "4 \<le> k" "k \<le> 6"
    | "7 \<le> k" "k \<le> 13"
    | "14 \<le> k" "k \<le> 26"
    | "27 \<le> k" "k \<le> 53"
    | "54 \<le> k" "k \<le> 100"
    using assms by linarith
  then have "\<lfloor>double_round (real k * (5404319552844595 / 18014398509481984))\<rfloor> = int q"
  proof cases
    case 1
    then show ?thesis by (simp add: q_def double_round_zero)
  next
    case 2
    then have "real k = 1" by simp
    with q show ?thesis
      by (intro floor_double_round[where a = 54]) (simp_all add: EMIN_def)
  next
    case 3
    then have "2 \<le> real k" "real k \<le> 3" by simp_all
    with q show ?thesis
      by (intro floor_double_round[where a = 53]) (simp_all add: EMIN_def)
  next
    case 4
    then have "4 \<le> real k" "real k \<le> 6" by simp_all
    with q show ?thesis
      by (intro floor_double_round[where a = 52]) (simp_all add: EMIN_def)
  next
    case 5
    then have "7 \<le> real k" "real k \<le> 13" by simp_all
    with q show ?thesis
      by (intro floor_double_round[where a = 51]) (simp_all add: EMIN_def)
  next
    case 6
    then have "14 \<le> real k" "real k \<le> 26" by simp_all
    with q show ?thesis
      by (intro floor_double_round[where a = 50]) (simp_all add: EMIN_def)
  next
    case 7
    then have "27 \<le> real k" "real k \<le> 53" by simp_all
    with q show ?thesis
      by (intro floor_double_round[where a = 49]) (simp_all add: EMIN_def)
  next
    case 8
    then have "54 \<le> real k" "real k \<le> 100" by simp_all
    with q show ?thesis
      by (intro floor_double_round[where a = 48]) (simp_all add: EMIN_def)
  qed
  then show ?thesis unfolding dmul_def v q_def .
qed

lemma floor_mul_02:
  assumes "k \<le> 100"
  shows "\<lfloor>dmul (real k) (double_round 0.2)\<rfloor> = int (k div 5)"
proof -
  define q where "q = k div 5"
  have q: "5 * real q \<le> real k" "real k \<le> 5 * real q + 4"
    using div5_real[of k] by (simp_all add: q_def)
  have v: "double_round 0.2 = 3602879701896397 / 18014398509481984"
    by (simp add: lit_02)
  consider "k = 0"
    | "k = 1"
    | "k = 2"
    | "3 \<le> k" "k \<le> 4"
    | "5 \<le> k" "k \<le> 9"
    | "10 \<le> k" "k \<le> 19"
    | "20 \<le> k" "k \<le> 39"
    | "40 \<le> k" "k \<le> 79"
    | "80 \<le> k" "k \<le> 100"
    using assms by linarith
  then have "\<lfloor>double_round (real k * (3602879701896397 / 18014398509481984))\<rfloor> = int q"
  proof cases
    case 1
    then show ?thesis by (simp add: q_def double_round_zero)
  next
    case 2
    then have "real k = 1" by simp
    with q show ?thesis
      by (intro floor_double_round[where a = 55]) (simp_all add: EMIN_def)
  next
    case 3
    then have "real k = 2" by simp
    with q show ?thesis
      by (intro floor_double_round[where a = 54]) (simp_all add: EMIN_def)
  next
    case 4
    then have "3 \<le> real k" "real k \<le> 4" by simp_all
    with q show ?thesis
      by (intro floor_double_round[where a = 53]) (simp_all add: EMIN_def)
  next
    case 5
    then have "5 \<le> real k" "real k \<le> 9" by simp_all
    with q show ?thesis
      by (intro floor_double_round[where a = 52]) (simp_all add: EMIN_def)
  next
    case 6
    then have "10 \<le> real k" "real k \<le> 19" by simp_all
    with q show ?thesis
      by (intro floor_double_round[where a = 51]) (simp_all add: EMIN_def)
  next
    case 7
    then have "20 \<le> real k" "real k \<le> 39" by simp_all
    with q show ?thesis
      by (intro floor_double_round[where a = 50]) (simp_all add: EMIN_def)
  next
    case 8
    then have "40 \<le> real k" "real k \<le> 79" by simp_all
    with q show ?thesis
      by (intro floor_double_round[where a = 49]) (simp_all add: EMIN_def)
  next
    case 9
    then have "80 \<le> real k" "real k \<le> 100" by simp_all
    with q show ?thesis
      by (intro floor_double_round[where a = 48]) (simp_all add: EMIN_def)
  qed
  then show ?thesis unfolding dmul_def v q_def .
qed

lemma band_30: "(int k * 30) div 100 = int (3 * k div 10)"
  by (simp add: zdiv_int)

lemma band_20: "(int k * 20) div 100 = int (k div 5)"
  by (simp add: zdiv_int)

lemma transcodeOverall_band: "k \<le> 100 \<Longrightarrow> transcodeOverall (real k) = spec_band 10 30 k"
  using floor_mul_03[of k] by (simp add: transcodeOverall_def spec_band_def band_30)

lemma thumbnailOverall_band: "k \<le> 100 \<Longrightarrow> thumbnailOverall (real k) = spec_band 40 20 k"
  using floor_mul_02[of k] by (simp add: thumbnailOverall_def spec_band_def band_20)

lemma scanOverall_band: "k \<le> 100 \<Longrightarrow> scanOverall (real k) = spec_band 70 20 k"
  using floor_mul_02[of k] by (simp add: scanOverall_def spec_band_def band_20)

lemma dmul_mono:
  assumes "0 \<le> c" and "p \<le> q"
  shows "dmul p c \<le> dmul q c"
  unfolding dmul_def using assms by (intro double_round_mono mult_right_mono)

lemma transcodeOverall_mono: "p \<le> q \<Longrightarrow> transcodeOverall p \<le> transcodeOverall q"
  by (simp add: transcodeOverall_def floor_mono dmul_mono double_round_nonneg)

lemma thumbnailOverall_mono: "p \<le> q \<Longrightarrow> thumbnailOverall p \<le> thumbnailOverall q"
  by (simp add: thumbnailOverall_def floor_mono dmul_mono double_round_nonneg)

lemma scanOverall_mono: "p \<le> q \<Longrightarrow> scanOverall p \<le> scanOverall q"
  by (simp add: scanOverall_def floor_mono dmul_mono double_round_nonneg)

lemma sorted_map_mono:
  assumes "sorted xs" and "\<And>x y. x \<le> y \<Longrightarrow> f x \<le> f y"
  shows "sorted (map f xs)"
  using assms by (induction xs) auto

subsection \<open>The percentages of the scan\<close>

lemma frame_fraction_range:
  assumes "i < n"
  shows "0 \<le> dmul (ddiv (real i) (real n)) 50 \<and> dmul (ddiv (real i) (real n)) 50 \<le> 50"
proof -
  from assms have "0 \<le> real i / real n" "real i / real n \<le> 1"
    by (simp_all add: divide_le_eq)
  then have "0 \<le> ddiv (real i) (real n)" "ddiv (real i) (real n) \<le> 1"
    unfolding ddiv_def using double_round_mono[of "real i / real n" 1]
    by (simp_all add: double_round_nonneg fix_1)
  then have "0 \<le> ddiv (real i) (real n) * 50" "ddiv (real i) (real n) * 50 \<le> 50"
    by simp_all
  then show ?thesis
    unfolding dmul_def using double_round_mono[of "ddiv (real i) (real n) * 50" 50]
    by (simp add: double_round_nonneg fix_50)
qed

lemma frameProgress_whole:
  assumes "i < n"
  shows "\<exists>k. 30 \<le> k \<and> k \<le> 80 \<and> frameProgress i n = real k"
proof -
  define z where "z = \<lfloor>dmul (ddiv (real i) (real n)) 50\<rfloor>"
  from frame_fraction_range[OF assms] have z: "0 \<le> z" "z \<le> 50"
    unfolding z_def by (simp_all add: floor_le_iff le_floor_iff)
  have "frameProgress i n = real_of_int (30 + z)"
    by (simp add: frameProgress_def z_def)
  also have "\<dots> = real (nat (30 + z))" using z by simp
  finally have "frameProgress i n = real (nat (30 + z))" .
  moreover have "30 \<le> nat (30 + z)" "nat (30 + z) \<le> 80" using z by simp_all
  ultimately show ?thesis by blast
qed

lemma frameProgress_range:
  assumes "i < n"
  shows "30 \<le> frameProgress i n \<and> frameProgress i n \<le> 80"
  using frameProgress_whole[OF assms] by auto

lemma frameProgress_mono: "i \<le> j \<Longrightarrow> frameProgress i n \<le> frameProgress j n"
proof -
  assume "i \<le> j"
  then have "real i / real n \<le> real j / real n" by (simp add: divide_right_mono)
  then have "ddiv (real i) (real n) \<le> ddiv (real j) (real n)"
    unfolding ddiv_def by (rule double_round_mono)
  then have "dmul (ddiv (real i) (real n)) 50 \<le> dmul (ddiv (real j) (real n)) 50"
    by (intro dmul_mono) simp_all
  then show ?thesis by (simp add: frameProgress_def floor_mono)
qed

lemma frames_progress_sorted: "sorted (map (\<lambda>i. frameProgress i n) [0..<n])"
  by (rule sorted_map_mono) (simp_all add: frameProgress_mono)

lemma scan_progress_sorted: "sorted (snd (processSensitivityCheck env))"
proof (cases env)
  case (Frames fas)
  show ?thesis
  proof (cases "fas = []")
    case True
    with Frames show ?thesis by (simp add: processSensitivityCheck_def)
  next
    case False
    have "\<forall>x \<in> set [0..<length fas]. 30 \<le> frameProgress x (length fas)
            \<and> frameProgress x (length fas) \<le> 80"
      using frameProgress_range by simp
    then have "\<forall>x \<in> set [0..<length fas]. 10 \<le> frameProgress x (length fas)
            \<and> 20 \<le> frameProgress x (length fas) \<and> 30 \<le> frameProgress x (length fas)
            \<and> frameProgress x (length fas) \<le> 85 \<and> frameProgress x (length fas) \<le> 100"
      by fastforce
    with Frames False frames_progress_sorted[of "length fas"] show ?thesis
      by (simp add: processSensitivityCheck_def Let_def sorted_append del: upt_Suc)
  qed
qed (simp_all add: processSensitivityCheck_def)

lemma whole_percentages:
  "\<exists>k\<le>100. (10::real) = real k" "\<exists>k\<le>100. (20::real) = real k"
  "\<exists>k\<le>100. (30::real) = real k" "\<exists>k\<le>100. (85::real) = real k"
  "\<exists>k\<le>100. (100::real) = real k"
  by (rule exI[of _ 10], simp, rule exI[of _ 20], simp, rule exI[of _ 30], simp,
      rule exI[of _ 85], simp, rule exI[of _ 100], simp)

lemma scan_progress_whole:
  "\<forall>p \<in> set (snd (processSensitivityCheck env)). \<exists>k\<le>100. p = real k"
proof (cases env)
  case (Frames fas)
  have "\<forall>i \<in> set [0..<length fas]. \<exists>k\<le>100. frameProgress i (length fas) = real k"
  proof
    fix i assume "i \<in> set [0..<length fas]"
    then have "i < length fas" by simp
    from frameProgress_whole[OF this] obtain k
      where "k \<le> 80" "frameProgress i (length fas) = real k" by blast
    then have "k \<le> 100 \<and> frameProgress i (length fas) = real k" by simp
    then show "\<exists>k\<le>100. frameProgress i (length fas) = real k" by blast
  qed
  with Frames whole_percentages show ?thesis
    by (auto simp: processSensitivityCheck_def Let_def simp del: upt_Suc)
qed (simp_all add: processSensitivityCheck_def whole_percentages)

subsection \<open>The percentages of a run\<close>

lemma transcodeEvents_sorted:
  assumes "sorted (transcode_progress eng)"
  shows "sorted (transcodeEvents eng)"
proof -
  have "sorted (filter (\<lambda>p. p \<noteq> 0) (transcode_progress eng))"
    using assms by (rule sorted_wrt_filter)
  then show ?thesis
    unfolding transcodeEvents_def
    by (rule sorted_map_mono) (rule transcodeOverall_mono)
qed

lemma transcodeEvents_range:
  assumes "\<forall>p \<in> set (transcode_progress eng). 0 \<le> p \<and> p \<le> 100"
  shows "\<forall>x \<in> set (transcodeEvents eng). 10 \<le> x \<and> x \<le> 40"
proof
  fix x assume "x \<in> set (transcodeEvents eng)"
  then obtain p where p: "p \<in> set (transcode_progress eng)" and x: "x = transcodeOverall p"
    by (auto simp: transcodeEvents_def)
  from p assms have "0 \<le> p" "p \<le> 100" by auto
  then have "transcodeOverall 0 \<le> x" "x \<le> transcodeOverall 100"
    unfolding x by (simp_all add: transcodeOverall_mono)
  moreover have "transcodeOverall 0 = 10" "transcodeOverall 100 = 40"
    using transcodeOverall_band[of 0] transcodeOverall_band[of 100]
    by (simp_all add: spec_band_def)
  ultimately show "10 \<le> x \<and> x \<le> 40" by simp
qed

lemma scanEvents_sorted: "sorted (map scanOverall (snd (processSensitivityCheck env)))"
  by (rule sorted_map_mono[OF scan_progress_sorted]) (rule scanOverall_mono)

lemma scanEvents_range:
  "\<forall>x \<in> set (map scanOverall (snd (processSensitivityCheck env))). 70 \<le> x \<and> x \<le> 90"
proof
  fix x assume "x \<in> set (map scanOverall (snd (processSensitivityCheck env)))"
  then obtain p where p: "p \<in> set (snd (processSensitivityCheck env))" and x: "x = scanOverall p"
    by auto
  from p scan_progress_whole obtain k where k: "k \<le> 100" "p = real k" by blast
  have "x = 70 + int (k div 5)"
    unfolding x k(2) scanOverall_band[OF k(1)] by (simp add: spec_band_def band_20)
  moreover have "k div 5 \<le> 20" using k(1) by simp
  ultimately show "70 \<le> x \<and> x \<le> 90" by simp
qed

lemma progress_shape:
  fixes A B :: "int list"
  assumes "sorted A" and "\<forall>x \<in> set A. 10 \<le> x \<and> x \<le> 40"
    and "sorted B" and "\<forall>x \<in> set B. 70 \<le> x \<and> x \<le> 90"
  shows "sorted ([10] @ A @ [40, 60, 60, 70, 70] @ B @ [100])
    \<and> last ([10] @ A @ [40, 60, 60, 70, 70] @ B @ [100]) = 100
    \<and> (\<forall>x \<in> set (butlast ([10] @ A @ [40, 60, 60, 70, 70] @ B @ [100])). x < 100)"
proof -
  have s: "sorted ([10] @ A @ [40, 60, 60, 70, 70] @ B @ [100])"
    using assms by (fastforce simp: sorted_append)
  have b: "butlast ([10] @ A @ [40, 60, 60, 70, 70] @ B @ [100]) = [10] @ A @ [40, 60, 60, 70, 70] @ B"
    by (simp add: butlast_append)
  have l: "\<forall>x \<in> set ([10] @ A @ [40, 60, 60, 70, 70] @ B). x < 100"
    using assms(2,4) by fastforce
  from s b l show ?thesis by simp
qed

lemma fixture_run_ok:
  "run_error (processVideo fixture_lib fixture_engine ''v1'' (fixture_world Uploaded None)) = None"
  by (simp add: processVideo_def fixture_world_def fixture_video_def fixture_engine_def
      existsSync_def Let_def)

lemma ev_p_1: "ddiv 0 2 = 0"
  unfolding ddiv_def
  by (simp add: double_round_zero)

lemma ev_p_2: "dmul 0 50 = 0"
  unfolding dmul_def
  by (simp add: double_round_zero)

lemma ev_p_3: "ddiv 1 2 = 1 / 2"
  unfolding ddiv_def
  by (rule double_round_eval[where a = 53]) (simp_all add: EMIN_def round_even_def)

lemma ev_p_4: "dmul (1 / 2) 50 = 25"
  unfolding dmul_def
  by (rule double_round_eval[where a = 48]) (simp_all add: EMIN_def round_even_def)

text \<open>
  The percentages of the scan of the fixture engine (two frames), and the adapters at the
  percentages of the fixture run.
\<close>

lemma fixture_scan_progress:
  "snd (processSensitivityCheck (scan fixture_engine)) = [10, 20, 30, 30, 55, 85, 100]"
  by (simp add: fixture_engine_def processSensitivityCheck_def frameProgress_def upt_rec Let_def
      ev_p_1 ev_p_2 ev_p_3 ev_p_4)

lemma adapter_values:
  "transcodeOverall 50 = 25" "transcodeOverall 100 = 40" "thumbnailOverall 100 = 60"
  "scanOverall 10 = 72" "scanOverall 20 = 74" "scanOverall 30 = 76" "scanOverall 55 = 81"
  "scanOverall 85 = 87" "scanOverall 100 = 90"
  using transcodeOverall_band[of 50] transcodeOverall_band[of 100] thumbnailOverall_band[of 100]
    scanOverall_band[of 10] scanOverall_band[of 20] scanOverall_band[of 30]
    scanOverall_band[of 55] scanOverall_band[of 85] scanOverall_band[of 100]
  by (simp_all add: spec_band_def)

text \<open>The rounded products of 300, 80 and 20 percent with 0.3.\<close>

lemma ev_r_1: "dmul 300 (5404319552844595 / 18014398509481984) = 90"
  unfolding dmul_def
  by (rule double_round_eval[where a = 46]) (simp_all add: EMIN_def round_even_def)

lemma ev_r_2: "dmul 80 (5404319552844595 / 18014398509481984) = 24"
  unfolding dmul_def
  by (rule double_round_eval[where a = 48]) (simp_all add: EMIN_def round_even_def)

lemma ev_r_3: "dmul 20 (5404319552844595 / 18014398509481984) = 6"
  unfolding dmul_def
  by (rule double_round_eval[where a = 50]) (simp_all add: EMIN_def round_even_def)

text \<open>
  The claim C6 as stated (for every successful run the reported percentages are non-decreasing
  and reach 100 only at completion) fails when the encoder reports a percentage above 100: the
  adapter forwards \<^verbatim>\<open>10 + Math.floor(progress * 0.3)\<close> as it comes. The fixture run with
  one encoder event of 300 percent succeeds and reports 100 as its second percentage, followed
  by 40.
\<close>

theorem C6_encoder_percent_counterexample:
  "run_error
      (processVideo fixture_lib
        (fixture_engine\<lparr>transcode_progress := [300]\<rparr>)
        ''v1'' (fixture_world Uploaded None)) = None
   \<and> run_progress
      (processVideo fixture_lib
        (fixture_engine\<lparr>transcode_progress := [300]\<rparr>)
        ''v1'' (fixture_world Uploaded None))
     = [10, 100, 40, 60, 60, 70, 70, 72, 74, 76, 76, 81, 87, 90, 100]"
proof -
  let ?eng = "fixture_engine\<lparr>transcode_progress := [300]\<rparr>"
  let ?R = "processVideo fixture_lib ?eng ''v1'' (fixture_world Uploaded None)"
  have ok: "run_error ?R = None"
    by (simp add: processVideo_def fixture_world_def fixture_video_def fixture_engine_def
        existsSync_def Let_def)
  have sc: "snd (processSensitivityCheck (scan ?eng)) = [10, 20, 30, 30, 55, 85, 100]"
    using fixture_scan_progress by simp
  have t: "transcodeEvents ?eng = [100]"
    by (simp add: transcodeEvents_def transcodeOverall_def lit_03 ev_r_1)
  have "run_progress ?R = [10, 100, 40, 60, 60, 70, 70, 72, 74, 76, 76, 81, 87, 90, 100]"
    unfolding success_progress[OF ok] sc t by (simp add: adapter_values)
  with ok show ?thesis by simp
qed

text \<open>
  Likewise an encoder that reports 80 and then 20 percent is reported as 34 and then 16.
\<close>

lemma unordered_encoder_example:
  "transcodeEvents (fixture_engine\<lparr>transcode_progress := [80, 20]\<rparr>) = [34, 16]"
  by (simp add: transcodeEvents_def transcodeOverall_def lit_03 ev_r_2 ev_r_3)

text \<open>
  C6 (amended). For every successful run whose encoder reports non-decreasing percentages
  between 0 and 100: the percentages passed to the progress callback are non-decreasing; the
  last one is 100 and every earlier one is below 100; the list is 10 (initialization), the
  non-zero encoder percentages through the transcode adapter, 40, the thumbnail adapter at 100,
  60, 70 twice (metadata), the percentages of the scan through the scan adapter, and 100
  (finalize). On a whole percentage \<open>k\<close> up to 100 the transcode adapter is the linear map into
  the band from 10 with weight 30, the thumbnail adapter the one into the band from 40 with
  weight 20, and the scan adapter the one into the band from 70 with weight 20, each rounded
  down; each adapter is non-decreasing on all numbers; the percentages of the scan are whole
  numbers up to 100; and 50 percent of the transcode stage is reported as \<open>10 + 15\<close>.
\<close>

theorem C6_progress_bands:
  assumes "run_error (processVideo lib eng vid w) = None"
    and "sorted (transcode_progress eng)"
    and "\<forall>p \<in> set (transcode_progress eng). 0 \<le> p \<and> p \<le> 100"
  shows "sorted (run_progress (processVideo lib eng vid w))
    \<and> last (run_progress (processVideo lib eng vid w)) = 100
    \<and> (\<forall>x \<in> set (butlast (run_progress (processVideo lib eng vid w))). x < 100)
    \<and> run_progress (processVideo lib eng vid w)
        = [10] @ map transcodeOverall (filter (\<lambda>p. p \<noteq> 0) (transcode_progress eng))
          @ [40, thumbnailOverall 100, 60, 70, 70]
          @ map scanOverall (snd (processSensitivityCheck (scan eng))) @ [100]
    \<and> (\<forall>k\<le>100. transcodeOverall (real k) = spec_band 10 30 k
          \<and> thumbnailOverall (real k) = spec_band 40 20 k
          \<and> scanOverall (real k) = spec_band 70 20 k)
    \<and> (\<forall>p q. p \<le> q \<longrightarrow> transcodeOverall p \<le> transcodeOverall q
          \<and> thumbnailOverall p \<le> thumbnailOverall q
          \<and> scanOverall p \<le> scanOverall q)
    \<and> (\<forall>p \<in> set (snd (processSensitivityCheck (scan eng))). \<exists>k\<le>100. p = real k)
    \<and> transcodeOverall 50 = 10 + 15"
proof -
  let ?A = "transcodeEvents eng"
  let ?B = "map scanOverall (snd (processSensitivityCheck (scan eng)))"
  have th: "thumbnailOverall 100 = 60"
    by (rule adapter_values)
  have eq: "run_progress (processVideo lib eng vid w) = [10] @ ?A @ [40, 60, 60, 70, 70] @ ?B @ [100]"
    using success_progress[OF assms(1)] th by simp
  have shape: "sorted ([10] @ ?A @ [40, 60, 60, 70, 70] @ ?B @ [100])
    \<and> last ([10] @ ?A @ [40, 60, 60, 70, 70] @ ?B @ [100]) = 100
    \<and> (\<forall>x \<in> set (butlast ([10] @ ?A @ [40, 60, 60, 70, 70] @ ?B @ [100])). x < 100)"
    by (rule progress_shape[OF transcodeEvents_sorted[OF assms(2)]
          transcodeEvents_range[OF assms(3)] scanEvents_sorted scanEvents_range])
  have lst: "[10] @ ?A @ [40, 60, 60, 70, 70] @ ?B @ [100]
      = [10] @ map transcodeOverall (filter (\<lambda>p. p \<noteq> 0) (transcode_progress eng))
          @ [40, thumbnailOverall 100, 60, 70, 70]
          @ map scanOverall (snd (processSensitivityCheck (scan eng))) @ [100]"
    using th by (simp add: transcodeEvents_def)
  have bands: "\<forall>k\<le>100. transcodeOverall (real k) = spec_band 10 30 k
          \<and> thumbnailOverall (real k) = spec_band 40 20 k
          \<and> scanOverall (real k) = spec_band 70 20 k"
    by (simp add: transcodeOverall_band thumbnailOverall_band scanOverall_band)
  have mono: "\<forall>p q. p \<le> q \<longrightarrow> transcodeOverall p \<le> transcodeOverall q
          \<and> thumbnailOverall p \<le> thumbnailOverall q
          \<and> scanOverall p \<le> scanOverall q"
    by (simp add: transcodeOverall_mono thumbnailOverall_mono scanOverall_mono)
  have ex: "transcodeOverall 50 = 10 + 15"
    using adapter_values(1) by simp
  show ?thesis
    unfolding eq using shape lst bands mono scan_progress_whole[of "scan eng"] ex by simp
qed

text \<open>
  The fixture run: encoder events 0 (dropped), 50 and 100, and a scan of two frames.
\<close>

theorem C6_progress_bands_witness:
  "run_progress (processVideo fixture_lib fixture_engine ''v1'' (fixture_world Uploaded None))
     = [10, 25, 40, 40, 60, 60, 70, 70, 72, 74, 76, 76, 81, 87, 90, 100]
   \<and> sorted (run_progress
        (processVideo fixture_lib fixture_engine ''v1'' (fixture_world Uploaded None)))"
proof -
  have h2: "sorted (transcode_progress fixture_engine)"
    and h3: "\<forall>p \<in> set (transcode_progress fixture_engine). 0 \<le> p \<and> p \<le> 100"
    by (simp_all add: fixture_engine_def)
  let ?R = "processVideo fixture_lib fixture_engine ''v1'' (fixture_world Uploaded None)"
  from C6_progress_bands[OF fixture_run_ok h2 h3]
  have s: "sorted (run_progress ?R)"
    and e: "run_progress ?R
        = [10] @ map transcodeOverall (filter (\<lambda>p. p \<noteq> 0) (transcode_progress fixture_engine))
          @ [40, thumbnailOverall 100, 60, 70, 70]
          @ map scanOverall (snd (processSensitivityCheck (scan fixture_engine))) @ [100]"
    by blast+
  have "run_progress ?R = [10, 25, 40, 40, 60, 60, 70, 70, 72, 74, 76, 76, 81, 87, 90, 100]"
    unfolding e fixture_scan_progress by (simp add: fixture_engine_def adapter_values)
  with s show ?thesis by simp
qed

lemma ev_q_1: "ddiv 29 50 = 5224175567749775 / 9007199254740992"
  unfolding ddiv_def
  by (rule double_round_eval[where a = 53]) (simp_all add: EMIN_def round_even_def)

lemma ev_q_2: "dmul (5224175567749775 / 9007199254740992) 50 = 8162774324609023 / 281474976710656"
  unfolding dmul_def
  by (rule double_round_eval[where a = 48]) (simp_all add: EMIN_def round_even_def)

lemma ev_q_3: "dmul (7975124340135253 / 140737488355328) (5404319552844595 / 18014398509481984) = 17"
  unfolding dmul_def
  by (rule double_round_eval[where a = 48]) (simp_all add: EMIN_def round_even_def)

text \<open>
  Two places where the rounding of the product shows: the encoder percentage
  56.666666666666664 is reported as 27 (the rounded product with 0.3 is 17), and frame 29 of 50
  as 58 (the rounded quotient times 50 rounds to 28.999999999999996).
\<close>

lemma rounded_progress_examples:
  "transcodeOverall (7975124340135253 / 140737488355328) = 27"
  "frameProgress 29 50 = 58"
  by (simp_all add: transcodeOverall_def frameProgress_def lit_03 ev_q_1 ev_q_2 ev_q_3)

lemma failRun_promotion: "run_promotion (failRun vid msg w ps) = None"
  by (simp add: failRun_def Let_def)

lemma promotion_scheduled:
  "run_promotion (processVideo lib eng vid w)
     = (if run_error (processVideo lib eng vid w) = None then Some vid else None)"
  by (auto simp: processVideo_def failRun_error failRun_promotion Let_def
      split: option.splits sum.splits)

text \<open>
  C9. The delayed promotion writes \<^verbatim>\<open>ready\<close> exactly when the record, as it is when the delay
  fires, is still safe or flagged; in any other status, and in particular failed, the record
  store is left as it was. The promotion is scheduled by a run exactly when the run succeeds.
\<close>

theorem C9_promotion_guard:
  "(videos w vid = Some v \<and> (status v = Safe \<or> status v = Flagged) \<longrightarrow>
      promoteToReady vid w = w\<lparr>videos := (videos w)(vid \<mapsto> v\<lparr>status := Ready\<rparr>)\<rparr>)
   \<and> (videos w vid = Some v \<and> status v \<noteq> Safe \<and> status v \<noteq> Flagged \<longrightarrow>
      promoteToReady vid w = w)
   \<and> (videos w vid = Some v \<and> status v = Failed \<longrightarrow>
      videos (promoteToReady vid w) vid = Some v)
   \<and> (videos w vid = None \<longrightarrow> promoteToReady vid w = w)
   \<and> run_promotion (processVideo lib eng vid w)
       = (if run_error (processVideo lib eng vid w) = None then Some vid else None)"
  by (simp add: promoteToReady_def saveVideo_def promotion_scheduled)

text \<open>The fixture record found failed, and found safe, when the delay fires.\<close>

theorem C9_promotion_guard_witness:
  "promoteToReady ''v1'' (fixture_world Failed None) = fixture_world Failed None
   \<and> videos (promoteToReady ''v1'' (fixture_world Safe None)) ''v1''
       = Some (fixture_video Ready None)"
proof -
  have a: "videos (fixture_world Failed None) ''v1'' = Some (fixture_video Failed None)"
    and b: "status (fixture_video Failed None) \<noteq> Safe \<and> status (fixture_video Failed None) \<noteq> Flagged"
    and c: "videos (fixture_world Safe None) ''v1'' = Some (fixture_video Safe None)"
    and d: "status (fixture_video Safe None) = Safe"
    and e: "(fixture_video Safe None)\<lparr>status := Ready\<rparr> = fixture_video Ready None"
    by (simp_all add: fixture_world_def fixture_video_def)
  from C9_promotion_guard[of "fixture_world Failed None" "''v1''" "fixture_video Failed None"
      fixture_lib fixture_engine] a b
  have f: "promoteToReady ''v1'' (fixture_world Failed None) = fixture_world Failed None"
    by simp
  from C9_promotion_guard[of "fixture_world Safe None" "''v1''" "fixture_video Safe None"
      fixture_lib fixture_engine] c d e
  have g: "videos (promoteToReady ''v1'' (fixture_world Safe None)) ''v1''
       = Some (fixture_video Ready None)"
    by simp
  from f g show ?thesis by simp
qed

lemma failRun_world:
  assumes "videos w vid = Some v"
  shows "videos (run_world (failRun vid msg w ps)) vid = Some (v\<lparr>status := Failed\<rparr>)
    \<and> (\<forall>p. files w p \<noteq> None \<longrightarrow> Some p \<noteq> processedFilePath v \<longrightarrow> Some p \<noteq> thumbnailPath v
          \<longrightarrow> files (run_world (failRun vid msg w ps)) p = files w p)"
  using assms
  by (auto simp: failRun_def Let_def saveVideo_def deleteFile_def truthy_def
      split: option.splits)

lemma writeOutput_keeps: "files w p \<noteq> None \<Longrightarrow> files (writeOutput q out w) p \<noteq> None"
  by (cases out) (simp_all add: writeOutput_def)

lemma writeOutput_videos: "videos (writeOutput q out w) = videos w"
  by (cases out) (simp_all add: writeOutput_def)

text \<open>
  A run that rejects ends in the \<^verbatim>\<open>catch\<close> block, entered with a store in which the record
  still names the derivative and thumbnail it named before the run, and with a file system that
  has lost none of its files.
\<close>

lemma failing_run_shape:
  assumes "videos w vid = Some v" and "run_error (processVideo lib eng vid w) \<noteq> None"
  shows "\<exists>msg w' ps v1. processVideo lib eng vid w = failRun vid msg w' ps
           \<and> videos w' vid = Some v1
           \<and> processedFilePath v1 = processedFilePath v
           \<and> thumbnailPath v1 = thumbnailPath v
           \<and> (\<forall>p. files w p \<noteq> None \<longrightarrow> files w' p \<noteq> None)"
proof -
  let ?v1 = "v\<lparr>status := Processing, processingProgress := 0\<rparr>"
  let ?w1 = "saveVideo vid ?v1 w"
  let ?ext = "(let e = getFileExtension lib (originalFilePath v) in if e = [] then ''mp4'' else e)"
  let ?pp = "getProcessedFilePath lib (tenantId v) vid ?ext"
  let ?tp = "getThumbnailPath lib (tenantId v) vid ''jpg''"
  let ?w2 = "writeOutput ?pp (transcode_output eng) ?w1"
  let ?w3 = "writeOutput ?tp (thumbnail_output eng) ?w2"
  have v1: "videos ?w1 vid = Some ?v1" "videos ?w2 vid = Some ?v1" "videos ?w3 vid = Some ?v1"
    by (simp_all add: saveVideo_def writeOutput_videos)
  have f1: "\<forall>p. files w p \<noteq> None \<longrightarrow> files ?w1 p \<noteq> None"
    by (simp add: saveVideo_def)
  have f2: "\<forall>p. files w p \<noteq> None \<longrightarrow> files ?w2 p \<noteq> None"
    using f1 writeOutput_keeps by blast
  have f3: "\<forall>p. files w p \<noteq> None \<longrightarrow> files ?w3 p \<noteq> None"
    using f2 writeOutput_keeps by blast
  have k: "processedFilePath ?v1 = processedFilePath v" "thumbnailPath ?v1 = thumbnailPath v"
    by simp_all
  show ?thesis
  proof (cases "existsSync w (originalFilePath v)")
    case False
    then have "processVideo lib eng vid w = failRun vid ''Original video file not found'' w []"
      by (simp add: processVideo_def assms(1) Let_def)
    with assms(1) show ?thesis by blast
  next
    case ex: True
    show ?thesis
    proof (cases "mkdir_error eng")
      case (Some msg)
      with ex have "processVideo lib eng vid w = failRun vid msg ?w1 [10]"
        by (simp add: processVideo_def assms(1) Let_def)
      with v1(1) k f1 show ?thesis by blast
    next
      case mk: None
      show ?thesis
      proof (cases "transcode_error eng")
        case (Some msg)
        with ex mk have "processVideo lib eng vid w
            = failRun vid msg ?w2 ([10] @ transcodeEvents eng)"
          by (simp add: processVideo_def assms(1) Let_def)
        with v1(2) k f2 show ?thesis by blast
      next
        case tr: None
        show ?thesis
        proof (cases "thumbnail_error eng")
          case (Some msg)
          with ex mk tr have "processVideo lib eng vid w
              = failRun vid msg ?w3 (([10] @ transcodeEvents eng) @ [40])"
            by (simp add: processVideo_def assms(1) Let_def)
          with v1(3) k f3 show ?thesis by blast
        next
          case th: None
          show ?thesis
          proof (cases "metadata_result eng")
            case (Inl msg)
            with ex mk tr th have "processVideo lib eng vid w
                = failRun vid msg ?w3
                    ((([10] @ transcodeEvents eng) @ [40]) @ [thumbnailOverall 100, 60])"
              by (simp add: processVideo_def assms(1) Let_def)
            with v1(3) k f3 show ?thesis by blast
          next
            case (Inr d)
            with ex mk tr th have "run_error (processVideo lib eng vid w) = None"
              by (simp add: processVideo_def assms(1) Let_def)
            with assms(2) show ?thesis by simp
          qed
        qed
      qed
    qed
  qed
qed

lemma run_fails_iff:
  assumes "videos w vid = Some v"
  shows "(run_error (processVideo lib eng vid w) \<noteq> None)
     = (\<not> existsSync w (originalFilePath v) \<or> mkdir_error eng \<noteq> None
        \<or> transcode_error eng \<noteq> None \<or> thumbnail_error eng \<noteq> None
        \<or> isl (metadata_result eng))"
  by (auto simp: processVideo_def assms failRun_error Let_def split: option.splits sum.splits)

text \<open>
  The claim C5 as stated (an external-engine failure in any stage aborts the run and marks the
  record failed) fails for the sensitivity stage: the scan catches its own errors and returns
  the safe default, so the run resolves and the record is marked safe.
\<close>

theorem C5_scan_failure_counterexample:
  "run_error (processVideo fixture_lib
      (fixture_engine\<lparr>scan := ExtractThrows ''Frame extraction failed: no such file''\<rparr>)
      ''v1'' (fixture_world Uploaded None)) = None
   \<and> map_option status (videos (run_world (processVideo fixture_lib
      (fixture_engine\<lparr>scan := ExtractThrows ''Frame extraction failed: no such file''\<rparr>)
      ''v1'' (fixture_world Uploaded None))) ''v1'') = Some Safe"
  by (simp add: processVideo_def fixture_world_def fixture_video_def fixture_engine_def
      existsSync_def Let_def saveVideo_def writeOutput_def processSensitivityCheck_def
      errorResult_def)

text \<open>
  C5 (amended). For a run on an existing record: the run rejects exactly when the original
  file is missing or the directory creation, the transcode, the thumbnail or the metadata stage
  fails (a failure inside the sensitivity scan does not reject the run). When it rejects, the
  record is marked failed, no promotion is scheduled, and the original file, if it was on disk
  and is not itself named by the record as its derivative or thumbnail, is still on disk.
\<close>

theorem C5_stage_error_marks_failed:
  assumes "videos w vid = Some v"
  shows "((run_error (processVideo lib eng vid w) \<noteq> None)
           = (\<not> existsSync w (originalFilePath v) \<or> mkdir_error eng \<noteq> None
              \<or> transcode_error eng \<noteq> None \<or> thumbnail_error eng \<noteq> None
              \<or> isl (metadata_result eng)))
    \<and> (run_error (processVideo lib eng vid w) \<noteq> None \<longrightarrow>
          map_option status (videos (run_world (processVideo lib eng vid w)) vid) = Some Failed
          \<and> run_promotion (processVideo lib eng vid w) = None
          \<and> (files w (originalFilePath v) \<noteq> None
               \<and> processedFilePath v \<noteq> Some (originalFilePath v)
               \<and> thumbnailPath v \<noteq> Some (originalFilePath v)
             \<longrightarrow> files (run_world (processVideo lib eng vid w)) (originalFilePath v) \<noteq> None))"
proof -
  have "run_error (processVideo lib eng vid w) \<noteq> None \<longrightarrow>
          map_option status (videos (run_world (processVideo lib eng vid w)) vid) = Some Failed
          \<and> run_promotion (processVideo lib eng vid w) = None
          \<and> (files w (originalFilePath v) \<noteq> None
               \<and> processedFilePath v \<noteq> Some (originalFilePath v)
               \<and> thumbnailPath v \<noteq> Some (originalFilePath v)
             \<longrightarrow> files (run_world (processVideo lib eng vid w)) (originalFilePath v) \<noteq> None)"
  proof
    assume fails: "run_error (processVideo lib eng vid w) \<noteq> None"
    from failing_run_shape[OF assms fails] obtain msg w' ps v1 where
      pv: "processVideo lib eng vid w = failRun vid msg w' ps"
      and rec: "videos w' vid = Some v1"
      and pp: "processedFilePath v1 = processedFilePath v"
      and tp: "thumbnailPath v1 = thumbnailPath v"
      and fs: "\<forall>p. files w p \<noteq> None \<longrightarrow> files w' p \<noteq> None"
      by blast
    from failRun_world[OF rec, of msg ps]
    have st: "videos (run_world (failRun vid msg w' ps)) vid = Some (v1\<lparr>status := Failed\<rparr>)"
      and keep: "\<forall>p. files w' p \<noteq> None \<longrightarrow> Some p \<noteq> processedFilePath v1
                  \<longrightarrow> Some p \<noteq> thumbnailPath v1
                  \<longrightarrow> files (run_world (failRun vid msg w' ps)) p = files w' p"
      by blast+
    have a: "map_option status (videos (run_world (processVideo lib eng vid w)) vid) = Some Failed"
      by (simp add: pv st)
    have b: "run_promotion (processVideo lib eng vid w) = None"
      by (simp add: pv failRun_promotion)
    have c: "files w (originalFilePath v) \<noteq> None
               \<and> processedFilePath v \<noteq> Some (originalFilePath v)
               \<and> thumbnailPath v \<noteq> Some (originalFilePath v)
             \<longrightarrow> files (run_world (processVideo lib eng vid w)) (originalFilePath v) \<noteq> None"
    proof
      assume h: "files w (originalFilePath v) \<noteq> None
               \<and> processedFilePath v \<noteq> Some (originalFilePath v)
               \<and> thumbnailPath v \<noteq> Some (originalFilePath v)"
      with fs have e: "files w' (originalFilePath v) \<noteq> None" by blast
      from h pp tp have "Some (originalFilePath v) \<noteq> processedFilePath v1"
        "Some (originalFilePath v) \<noteq> thumbnailPath v1" by auto
      with keep e have "files (run_world (failRun vid msg w' ps)) (originalFilePath v)
          = files w' (originalFilePath v)" by blast
      with e show "files (run_world (processVideo lib eng vid w)) (originalFilePath v) \<noteq> None"
        by (simp add: pv)
    qed
    from a b c show "map_option status (videos (run_world (processVideo lib eng vid w)) vid) = Some Failed
          \<and> run_promotion (processVideo lib eng vid w) = None
          \<and> (files w (originalFilePath v) \<noteq> None
               \<and> processedFilePath v \<noteq> Some (originalFilePath v)
               \<and> thumbnailPath v \<noteq> Some (originalFilePath v)
             \<longrightarrow> files (run_world (processVideo lib eng vid w)) (originalFilePath v) \<noteq> None)"
      by blast
  qed
  with run_fails_iff[OF assms, of lib eng] show ?thesis by blast
qed


text \<open>The fixture record, freshly uploaded, in a run whose thumbnail stage rejects.\<close>

theorem C5_stage_error_marks_failed_witness:
  "run_error (processVideo fixture_lib
      (fixture_engine\<lparr>thumbnail_error := Some ''Thumbnail generation failed: no frame'',
                      thumbnail_output := None\<rparr>) ''v1'' (fixture_world Uploaded None)) \<noteq> None
   \<and> map_option status (videos (run_world (processVideo fixture_lib
      (fixture_engine\<lparr>thumbnail_error := Some ''Thumbnail generation failed: no frame'',
                      thumbnail_output := None\<rparr>) ''v1'' (fixture_world Uploaded None))) ''v1'')
     = Some Failed
   \<and> run_promotion (processVideo fixture_lib
      (fixture_engine\<lparr>thumbnail_error := Some ''Thumbnail generation failed: no frame'',
                      thumbnail_output := None\<rparr>) ''v1'' (fixture_world Uploaded None)) = None
   \<and> files (run_world (processVideo fixture_lib
      (fixture_engine\<lparr>thumbnail_error := Some ''Thumbnail generation failed: no frame'',
                      thumbnail_output := None\<rparr>) ''v1'' (fixture_world Uploaded None)))
        ''stream.mp4'' \<noteq> None"
proof -
  let ?eng = "fixture_engine\<lparr>thumbnail_error := Some ''Thumbnail generation failed: no frame'',
                      thumbnail_output := None\<rparr>"
  have h: "videos (fixture_world Uploaded None) ''v1'' = Some (fixture_video Uploaded None)"
    by (simp add: fixture_world_def)
  have e: "thumbnail_error ?eng \<noteq> None"
    by simp
  have o: "files (fixture_world Uploaded None) (originalFilePath (fixture_video Uploaded None)) \<noteq> None
      \<and> processedFilePath (fixture_video Uploaded None)
          \<noteq> Some (originalFilePath (fixture_video Uploaded None))
      \<and> thumbnailPath (fixture_video Uploaded None)
          \<noteq> Some (originalFilePath (fixture_video Uploaded None))"
    and n: "originalFilePath (fixture_video Uploaded None) = ''stream.mp4''"
    by (simp_all add: fixture_world_def fixture_video_def)
  from C5_stage_error_marks_failed[OF h, of fixture_lib ?eng] e o
  show ?thesis
    unfolding n by blast
qed

text \<open>
  The cleanup of a failed run deletes the files named by the record's
  \<^verbatim>\<open>processedFilePath\<close> and \<^verbatim>\<open>thumbnailPath\<close>, and the run writes these two fields only
  when every stage has succeeded. For a record that names no derivative the cleanup therefore
  deletes nothing.
\<close>

lemma failRun_marks_failed:
  assumes "videos w vid = Some v"
  shows "videos (run_world (failRun vid msg w ps)) vid = Some (v\<lparr>status := Failed\<rparr>)"
  using assms
  by (simp add: failRun_def Let_def saveVideo_def deleteFile_def split: option.splits)

lemma failRun_nothing_recorded:
  assumes "videos w vid = Some v" and "processedFilePath v = None" and "thumbnailPath v = None"
  shows "files (run_world (failRun vid msg w ps)) = files w"
  using assms by (simp add: failRun_def Let_def saveVideo_def truthy_def)

text \<open>
  An instance: the fixture record, freshly uploaded; the transcode writes the derivative, then
  the thumbnail stage rejects. The run rejects and the record is marked failed, the original is
  kept, and the derivative stays on disk.
\<close>

lemma failed_run_keeps_derivative:
  "run_error (processVideo fixture_lib
      (fixture_engine\<lparr>thumbnail_error := Some ''Thumbnail generation failed: no frame'',
                      thumbnail_output := None\<rparr>) ''v1'' (fixture_world Uploaded None))
     = Some ''Thumbnail generation failed: no frame''
   \<and> videos (run_world (processVideo fixture_lib
      (fixture_engine\<lparr>thumbnail_error := Some ''Thumbnail generation failed: no frame'',
                      thumbnail_output := None\<rparr>) ''v1'' (fixture_world Uploaded None))) ''v1''
     = Some (fixture_video Failed None)
   \<and> files (run_world (processVideo fixture_lib
      (fixture_engine\<lparr>thumbnail_error := Some ''Thumbnail generation failed: no frame'',
                      thumbnail_output := None\<rparr>) ''v1'' (fixture_world Uploaded None)))
        ''./uploads/tenant-stream/v1_processed.mp4''
     = Some ''h264''
   \<and> files (run_world (processVideo fixture_lib
      (fixture_engine\<lparr>thumbnail_error := Some ''Thumbnail generation failed: no frame'',
                      thumbnail_output := None\<rparr>) ''v1'' (fixture_world Uploaded None)))
        ''stream.mp4''
     = Some ''0123456789''"
  by (simp add: processVideo_def failRun_def fixture_world_def fixture_video_def
      fixture_engine_def fixture_lib_def existsSync_def Let_def saveVideo_def writeOutput_def
      getProcessedFilePath_def getThumbnailPath_def getFileExtension_def truthy_def
      transcodeEvents_def)

text \<open>A successful run followed directly by its delayed promotion leaves the record ready.\<close>

lemma success_then_promotion:
  assumes "run_error (processVideo lib eng vid w) = None"
  shows "\<exists>v. videos (promoteToReady vid (run_world (processVideo lib eng vid w))) vid = Some v
             \<and> status v = Ready"
  using assms
  by (auto simp: processVideo_def failRun_error Let_def promoteToReady_def saveVideo_def
      split: option.splits sum.splits if_splits)

section \<open>Properties of the job queue\<close>

lemma started_append: "started (xs @ ys) = started xs @ started ys"
  by (induction xs rule: started.induct) simp_all

lemma replay_append:
  "replay (xs @ ys) cur = (case replay xs cur of None \<Rightarrow> None | Some c \<Rightarrow> replay ys c)"
  by (induction xs cur rule: replay.induct) simp_all

lemma inv_initial: "queue_inv initial_queue []"
  by (simp add: queue_inv_def initial_queue_def)

lemma inv_processNext:
  assumes "queue_inv s q"
  shows "queue_inv (processNext s) q"
  using assms
  by (auto simp: queue_inv_def processNext_def started_append replay_append split: list.splits)

lemma inv_addToQueue:
  assumes "queue_inv s q"
  shows "queue_inv (addToQueue v s) (q @ [v])"
proof -
  let ?s1 = "s\<lparr>processingQueue := processingQueue s @ [v]\<rparr>"
  show ?thesis
  proof (cases "isProcessing s")
    case True
    with assms show ?thesis
      by (auto simp: queue_inv_def addToQueue_def Let_def)
  next
    case False
    with assms have "currentVideoId s = None" by (simp add: queue_inv_def)
    with assms False show ?thesis
      by (cases "processingQueue s")
         (auto simp: queue_inv_def addToQueue_def processNext_def Let_def started_append
            replay_append)
  qed
qed

lemma inv_settle:
  assumes "queue_inv s q" and "isProcessing s"
  shows "queue_inv (settle ok s) q"
proof (cases "processingQueue s = []")
  case True
  with assms show ?thesis
    by (auto simp: queue_inv_def settle_def Let_def started_append replay_append)
next
  case False
  with assms show ?thesis
    by (auto simp: queue_inv_def settle_def Let_def started_append replay_append)
qed

lemma inv_runImmediate:
  assumes "queue_inv s q" and "immediates s > 0"
  shows "queue_inv (runImmediate s) q"
proof -
  let ?s1 = "s\<lparr>immediates := immediates s - 1\<rparr>"
  show ?thesis
  proof (cases "isProcessing s \<or> processingQueue s = []")
    case True
    with assms show ?thesis
      by (auto simp: queue_inv_def runImmediate_def processNext_def)
  next
    case False
    with assms show ?thesis
      by (cases "processingQueue s")
         (auto simp: queue_inv_def runImmediate_def processNext_def started_append replay_append)
  qed
qed

lemma inv_turn:
  assumes "queue_inv s q" and "turn t s = Some s'"
  shows "queue_inv s' (q @ enqueued [t])"
  using assms
  by (cases t)
     (auto simp: turn_def inv_addToQueue inv_settle inv_runImmediate split: if_splits)

lemma enqueued_Cons: "enqueued (t # ts) = enqueued [t] @ enqueued ts"
  by (cases t) simp_all

lemma inv_turns:
  assumes "queue_inv s q" and "turns ts s = Some s'"
  shows "queue_inv s' (q @ enqueued ts)"
  using assms
proof (induction ts arbitrary: s q)
  case Nil
  then show ?case by simp
next
  case (Cons t ts)
  from Cons.prems(2) obtain s1 where t: "turn t s = Some s1" and r: "turns ts s1 = Some s'"
    by (auto split: option.splits)
  from inv_turn[OF Cons.prems(1) t] have "queue_inv s1 (q @ enqueued [t])" .
  from Cons.IH[OF this r] show ?case
    by (simp add: enqueued_Cons[of t ts])
qed

lemma drain_inv:
  assumes "queue_inv s q"
  shows "queue_inv (drain resolves s) q
         \<and> \<not> isProcessing (drain resolves s)
         \<and> processingQueue (drain resolves s) = []"
  using assms
proof (induction resolves s rule: drain.induct)
  case (1 resolves s)
  show ?case
  proof (cases "isProcessing s \<and> currentVideoId s \<noteq> None")
    case True
    with "1.prems" have "queue_inv (settle (resolves (length (runlog s))) s) q"
      by (simp add: inv_settle)
    from "1.IH"(1)[OF True this] True show ?thesis
      by (simp add: drain.simps[of resolves s])
  next
    case False
    with "1.prems" have idle: "\<not> isProcessing s"
      by (auto simp: queue_inv_def)
    show ?thesis
    proof (cases "immediates s > 0")
      case True
      with "1.prems" have "queue_inv (runImmediate s) q"
        by (simp add: inv_runImmediate)
      from "1.IH"(2)[OF False _ this] idle True False show ?thesis
        by (simp add: drain.simps[of resolves s])
    next
      case F2: False
      with idle "1.prems" have "processingQueue s = []"
        by (auto simp: queue_inv_def)
      with idle F2 False "1.prems" show ?thesis
        by (simp add: drain.simps[of resolves s])
    qed
  qed
qed

lemma failure_then_next:
  assumes "queue_inv s q" and "isProcessing s" and "processingQueue s = k # rest"
  shows "map_option currentVideoId (turns [Settle False, Immediate] s) = Some (Some k)
       \<and> map_option (\<lambda>s'. started (runlog s')) (turns [Settle False, Immediate] s)
           = Some (started (runlog s) @ [k])"
proof -
  from assms(1,2) obtain c where c: "currentVideoId s = Some c"
    by (auto simp: queue_inv_def)
  show ?thesis
    using assms(2,3) c
    by (simp add: turn_def settle_def runImmediate_def processNext_def Let_def started_append)
qed

text \<open>
  C4. Take any interleaving of uploads, settling runs and immediates from the empty queue, and
  the state it leaves. The ids whose runs have started, followed by the ids still waiting, are
  the ids enqueued, in enqueue order; no run ever started while another was in flight; the queue
  is never stalled (it is busy, or empty, or has an immediate pending); an upload is always
  accepted and returns the next state. Letting the queue run dry from there, each run settling
  either way, the runs started are exactly the ids enqueued, in order, as many as were enqueued,
  still one at a time, and the queue ends idle and empty. And when a run in flight rejects while
  a job waits, the immediate that follows starts that job.
\<close>

theorem C4_queue_serial_fifo:
  assumes "turns ts initial_queue = Some s"
  shows "started (runlog s) @ processingQueue s = enqueued ts
    \<and> one_at_a_time (runlog s)
    \<and> (isProcessing s \<or> processingQueue s = [] \<or> immediates s > 0)
    \<and> turn (Enqueue v) s = Some (addToQueue v s)
    \<and> started (runlog (drain resolves s)) = enqueued ts
    \<and> length (started (runlog (drain resolves s))) = length (enqueued ts)
    \<and> one_at_a_time (runlog (drain resolves s))
    \<and> processingQueue (drain resolves s) = []
    \<and> \<not> isProcessing (drain resolves s)
    \<and> (isProcessing s \<and> processingQueue s = k # rest \<longrightarrow>
          map_option currentVideoId (turns [Settle False, Immediate] s) = Some (Some k)
          \<and> map_option (\<lambda>s'. started (runlog s')) (turns [Settle False, Immediate] s)
              = Some (started (runlog s) @ [k]))"
proof -
  from inv_turns[OF inv_initial assms] have inv: "queue_inv s (enqueued ts)" by simp
  from drain_inv[OF inv, of resolves] have
    dinv: "queue_inv (drain resolves s) (enqueued ts)"
    and didle: "\<not> isProcessing (drain resolves s)"
    and dempty: "processingQueue (drain resolves s) = []"
    by simp_all
  from inv have a: "started (runlog s) @ processingQueue s = enqueued ts"
    and b: "one_at_a_time (runlog s)"
    and c: "isProcessing s \<or> processingQueue s = [] \<or> immediates s > 0"
    by (auto simp: queue_inv_def one_at_a_time_def)
  from dinv dempty have d: "started (runlog (drain resolves s)) = enqueued ts"
    and e: "one_at_a_time (runlog (drain resolves s))"
    by (simp_all add: queue_inv_def one_at_a_time_def)
  have f: "isProcessing s \<and> processingQueue s = k # rest \<longrightarrow>
          map_option currentVideoId (turns [Settle False, Immediate] s) = Some (Some k)
          \<and> map_option (\<lambda>s'. started (runlog s')) (turns [Settle False, Immediate] s)
              = Some (started (runlog s) @ [k])"
    using failure_then_next[OF inv] by blast
  have g: "turn (Enqueue v) s = Some (addToQueue v s)"
    by (simp add: turn_def)
  from a b c d e f g didle dempty show ?thesis by simp
qed

lemma witness_turns:
  "turns [Enqueue ''a'', Enqueue ''b'', Enqueue ''c''] initial_queue
     = Some \<lparr>processingQueue = [''b'', ''c''], isProcessing = True,
             currentVideoId = Some ''a'', immediates = 0, runlog = [Started ''a'']\<rparr>"
  by (simp add: turn_def addToQueue_def processNext_def initial_queue_def Let_def)

text \<open>
  Three uploads while the first run is in flight; the first run then rejects, the other two
  resolve.
\<close>

theorem C4_queue_serial_fifo_witness:
  "turns [Enqueue ''a'', Enqueue ''b'', Enqueue ''c''] initial_queue
     = Some \<lparr>processingQueue = [''b'', ''c''], isProcessing = True,
             currentVideoId = Some ''a'', immediates = 0, runlog = [Started ''a'']\<rparr>
   \<and> runlog (drain (\<lambda>n. 1 < n)
      \<lparr>processingQueue = [''b'', ''c''], isProcessing = True,
       currentVideoId = Some ''a'', immediates = 0, runlog = [Started ''a'']\<rparr>)
     = [Started ''a'', Finished ''a'' False, Started ''b'', Finished ''b'' True,
        Started ''c'', Finished ''c'' True]
   \<and> started (runlog (drain (\<lambda>n. 1 < n)
      \<lparr>processingQueue = [''b'', ''c''], isProcessing = True,
       currentVideoId = Some ''a'', immediates = 0, runlog = [Started ''a'']\<rparr>))
     = [''a'', ''b'', ''c'']
   \<and> map_option currentVideoId (turns [Settle False, Immediate]
      \<lparr>processingQueue = [''b'', ''c''], isProcessing = True,
       currentVideoId = Some ''a'', immediates = 0, runlog = [Started ''a'']\<rparr>)
     = Some (Some ''b'')"
proof -
  let ?s = "\<lparr>processingQueue = [''b'', ''c''], isProcessing = True,
       currentVideoId = Some ''a'', immediates = 0, runlog = [Started ''a'']\<rparr>"
  have d: "runlog (drain (\<lambda>n. 1 < n) ?s)
     = [Started ''a'', Finished ''a'' False, Started ''b'', Finished ''b'' True,
        Started ''c'', Finished ''c'' True]"
    by (simp add: drain.simps settle_def runImmediate_def processNext_def Let_def)
  have p: "isProcessing ?s \<and> processingQueue ?s = ''b'' # [''c'']"
    by simp
  from C4_queue_serial_fifo[OF witness_turns, where resolves = "\<lambda>n. 1 < n"
      and k = "''b''" and rest = "[''c'']"] p
  have "started (runlog (drain (\<lambda>n. 1 < n) ?s))
          = enqueued [Enqueue ''a'', Enqueue ''b'', Enqueue ''c'']"
    and "map_option currentVideoId (turns [Settle False, Immediate] ?s) = Some (Some ''b'')"
    by blast+
  with d witness_turns show ?thesis by simp
qed


end
